theory Spec2Isabelle
  imports Complex_Main
begin

unbundle bit_operations_syntax

section \<open>Accessory id allocation (aidmanager.py)\<close>

subsection \<open>The two checksums and the random draw\<close>

text \<open>
  Entity ids and unique ids are Python strings that the code always passes through
  \<^verbatim>\<open>.encode("utf-8")\<close> before hashing; they are modelled by their UTF-8 bytes, one
  \<^typ>\<open>char\<close> per byte. Aids are Python integers that never go negative: \<^typ>\<open>nat\<close>.

  \<^verbatim>\<open>zlib.adler32(data)\<close> (start value 1): two sums modulo 65521, the second one in the
  high 16 bits.
\<close>

definition adler32_step :: "nat \<times> nat \<Rightarrow> char \<Rightarrow> nat \<times> nat" where
  "adler32_step ab c =
     (let a = (fst ab + of_char c) mod 65521;
          b = (snd ab + a) mod 65521
      in (a, b))"

definition adler32 :: "string \<Rightarrow> nat" where
  "adler32 s = (let ab = foldl adler32_step (1, 0) s in snd ab * 65536 + fst ab)"

text \<open>
  \<^verbatim>\<open>fnvhash.fnv1a_32(data)\<close>: starting from the offset basis 0x811c9dc5, every byte is
  xor-ed in and the result multiplied by the prime 0x01000193 modulo \<open>2 ^ 32\<close>.
\<close>

definition fnv1a_32_step :: "nat \<Rightarrow> char \<Rightarrow> nat" where
  "fnv1a_32_step hval c = ((hval XOR of_char c) * 16777619) mod 2 ^ 32"

definition fnv1a_32 :: "string \<Rightarrow> nat" where
  "fnv1a_32 s = foldl fnv1a_32_step 2166136261 s"

definition INVALID_AIDS :: "nat list" where
  "INVALID_AIDS = [0, 1]"

definition AID_MIN :: nat where
  "AID_MIN = 2"

definition AID_MAX :: nat where
  "AID_MAX = 18446744073709551615"

text \<open>
  The expression \<^verbatim>\<open>random.randrange(AID_MIN, AID_MAX)\<close>. Python computes it as
  \<^verbatim>\<open>start + randbelow(stop - start)\<close>, where \<^verbatim>\<open>randbelow(n)\<close> is some integer of
  \<open>[0, n)\<close> determined by the generator's state. The generator's output is an input of
  the model (\<open>raw\<close>), reduced to \<open>[0, n)\<close>; every value of \<open>[0, n)\<close> is reached,
  and nothing else.
\<close>

definition random_aid :: "nat \<Rightarrow> nat" where
  "random_aid raw = AID_MIN + raw mod (AID_MAX - AID_MIN)"

text \<open>
  The generator \<^verbatim>\<open>_generate_aids\<close> yields seven candidates, in this order. \<open>raw i\<close> is
  the generator output behind the \<open>i\<close>-th pass of \<^verbatim>\<open>for _ in range(5)\<close>.
\<close>

definition generate_aids :: "string \<Rightarrow> string \<Rightarrow> (nat \<Rightarrow> nat) \<Rightarrow> nat list" where
  "generate_aids uid eid raw =
     adler32 eid # fnv1a_32 uid # map (\<lambda>i. random_aid (raw i)) [0..<5]"

subsection \<open>The storage object\<close>

text \<open>
  \<^verbatim>\<open>AccessoryAidStorage\<close> holds the dict \<open>allocations\<close> and the set
  \<open>allocated_aids\<close>. The host's \<^verbatim>\<open>Store\<close> is represented by what it keeps: whether a
  delayed save has been requested (\<open>save_scheduled\<close>) and the data last written
  (\<open>disk\<close>, \<open>None\<close> while nothing was ever written). The saved data is the dict
  \<^verbatim>\<open>{"unique_ids": allocations}\<close>.
\<close>

type_synonym raw_storage = "string \<rightharpoonup> (string \<rightharpoonup> nat)"

record storage =
  allocations :: "string \<rightharpoonup> nat"
  allocated_aids :: "nat set"
  save_scheduled :: bool
  disk :: "raw_storage option"

text \<open>The Python exceptions that the modelled functions raise.\<close>

datatype error = ValueError string | KeyError | AttributeError

record registry_entry =
  platform :: string
  domain :: string
  unique_id :: string
  entity_id :: string

definition get_system_unique_id :: "registry_entry \<Rightarrow> string" where
  "get_system_unique_id entity =
     platform entity @ ''.'' @ domain entity @ ''.'' @ unique_id entity"

text \<open>\<^verbatim>\<open>__init__\<close>: an empty table over the given store.\<close>

definition init_storage :: "raw_storage option \<Rightarrow> storage" where
  "init_storage d =
     \<lparr>allocations = Map.empty, allocated_aids = {}, save_scheduled = False, disk = d\<rparr>"

text \<open>
  \<^verbatim>\<open>async_initialize\<close>: \<^verbatim>\<open>store.async_load()\<close> returns what is on disk; nothing or an
  empty dict leaves the table as it is.
\<close>

definition async_initialize :: "storage \<Rightarrow> storage" where
  "async_initialize st =
     (case disk st of
        None \<Rightarrow> st
      | Some raw \<Rightarrow>
          if raw = Map.empty then st
          else
            let a = (case raw ''unique_ids'' of None \<Rightarrow> Map.empty | Some a \<Rightarrow> a)
            in st\<lparr>allocations := a, allocated_aids := ran a\<rparr>)"

definition data_to_save :: "storage \<Rightarrow> raw_storage" where
  "data_to_save st = [''unique_ids'' \<mapsto> allocations st]"

definition async_schedule_save :: "storage \<Rightarrow> storage" where
  "async_schedule_save st = st\<lparr>save_scheduled := True\<rparr>"

text \<open>
  The store saving: it calls \<^verbatim>\<open>_data_to_save\<close> and writes the result, which settles
  a pending request. Until that moment the disk holds the previous data.
\<close>

definition store_write :: "storage \<Rightarrow> storage" where
  "store_write st = st\<lparr>save_scheduled := False, disk := Some (data_to_save st)\<rparr>"

text \<open>A restart: a new object over the same store, then \<^verbatim>\<open>async_initialize\<close>.\<close>

definition restart :: "storage \<Rightarrow> storage" where
  "restart st = async_initialize (init_storage (disk st))"

text \<open>
  The \<^verbatim>\<open>for aid in _generate_aids(...)\<close> loop of \<^verbatim>\<open>_get_or_allocate_aid\<close>, as a
  recursion over the candidates that are left; running out of candidates is the
  \<^verbatim>\<open>raise ValueError\<close> after the loop. The result is paired with the object's state
  after the call, also when the call raises.
\<close>

primrec allocate_from :: "storage \<Rightarrow> string \<Rightarrow> string \<Rightarrow> nat list \<Rightarrow> (error + nat) \<times> storage" where
  "allocate_from st uid eid [] =
     (Inl (ValueError (''Unable to generate unique aid allocation for '' @ eid
                        @ '' ['' @ uid @ '']'')), st)"
| "allocate_from st uid eid (aid # aids) =
     (if aid \<in> set INVALID_AIDS then allocate_from st uid eid aids
      else if aid \<notin> allocated_aids st then
        (Inr aid,
         async_schedule_save
           (st\<lparr>allocations := (allocations st)(uid \<mapsto> aid),
               allocated_aids := insert aid (allocated_aids st)\<rparr>))
      else allocate_from st uid eid aids)"

definition get_or_allocate_aid ::
  "storage \<Rightarrow> string \<Rightarrow> string \<Rightarrow> (nat \<Rightarrow> nat) \<Rightarrow> (error + nat) \<times> storage" where
  "get_or_allocate_aid st uid eid raw =
     (case allocations st uid of
        Some aid \<Rightarrow> (Inr aid, st)
      | None \<Rightarrow> allocate_from st uid eid (generate_aids uid eid raw))"

text \<open>
  \<^verbatim>\<open>get_or_allocate_aid_for_entity_id\<close>; \<open>registry\<close> is the entity registry's
  \<^verbatim>\<open>async_get\<close>. The warning that the fallback logs is not part of the state.
\<close>

definition get_or_allocate_aid_for_entity_id ::
  "(string \<rightharpoonup> registry_entry) \<Rightarrow> storage \<Rightarrow> string \<Rightarrow> (nat \<Rightarrow> nat) \<Rightarrow> (error + nat) \<times> storage" where
  "get_or_allocate_aid_for_entity_id registry st eid raw =
     (case registry eid of
        Some entity \<Rightarrow> get_or_allocate_aid st (get_system_unique_id entity) (entity_id entity) raw
      | None \<Rightarrow> (Inr (adler32 eid), st))"

text \<open>\<^verbatim>\<open>delete_aid\<close>: \<^verbatim>\<open>pop\<close>, \<^verbatim>\<open>discard\<close>, then the request to save.\<close>

definition delete_aid :: "storage \<Rightarrow> string \<Rightarrow> storage" where
  "delete_aid st uid =
     (case allocations st uid of
        None \<Rightarrow> st
      | Some aid \<Rightarrow>
          async_schedule_save
            (st\<lparr>allocations := (allocations st)(uid := None),
                allocated_aids := allocated_aids st - {aid}\<rparr>))"

text \<open>
  The two properties of a table that the class is written to keep: no aid is allocated
  to two identities, and \<open>allocated_aids\<close> is the set of the dict's values.
\<close>

definition table_ok :: "storage \<Rightarrow> bool" where
  "table_ok st \<longleftrightarrow>
     (\<forall>u v a b. u \<noteq> v \<longrightarrow> allocations st u = Some a \<longrightarrow> allocations st v = Some b \<longrightarrow> a \<noteq> b)
     \<and> allocated_aids st = ran (allocations st)"

text \<open>
  What \<^verbatim>\<open>_get_or_allocate_aid\<close> does to the object when it allocates \<open>aid\<close> for
  \<open>uid\<close>: the entry, the member of the set, and the request to save.
\<close>

definition recorded :: "storage \<Rightarrow> string \<Rightarrow> nat \<Rightarrow> storage \<Rightarrow> bool" where
  "recorded st uid aid st' \<longleftrightarrow>
     allocations st' = (allocations st)(uid \<mapsto> aid) \<and>
     allocated_aids st' = insert aid (allocated_aids st) \<and>
     save_scheduled st' \<and> disk st' = disk st"

section \<open>Accessories (accessories.py)\<close>

subsection \<open>The hub as an accessory sees it\<close>

text \<open>
  An accessory reaches the hub through \<^verbatim>\<open>self.hass\<close>. Three of its facilities are used
  by the code modelled here:
  \<^item> the clock \<^verbatim>\<open>dt_util.utcnow()\<close>, counted in ticks;
  \<^item> \<^verbatim>\<open>track_point_in_utc_time\<close>, which registers a one-shot listener for a point in
    time and returns the function that removes it again. A listener is kept as a number
    that tells registrations apart, its point in time and the name of the debounced
    function whose \<^verbatim>\<open>call_later_listener\<close> it runs; the removing function is
    represented by the listener it removes;
  \<^item> the executor (\<^verbatim>\<open>async_add_executor_job\<close>), a queue of calls \<^verbatim>\<open>func(self, value)\<close>
    kept as the function's name and the value, and the service registry, represented
    by the log of the calls \<^verbatim>\<open>services.async_call(domain, service, service_data)\<close>
    made so far, oldest first.
  Values in service data are strings or numbers; the type of numbers is left open
  (\<open>'t\<close>), since the code only hands them on.
\<close>

datatype 't pyval = Str string | Num 't

type_synonym listener = "nat \<times> nat \<times> string"

type_synonym 't service_call = "string \<times> string \<times> (string \<times> 't pyval) list"

record 't hass =
  utcnow :: nat
  listeners :: "listener list"
  next_listener :: nat
  executor_jobs :: "(string \<times> 't) list"
  service_calls :: "'t service_call list"

definition track_point_in_utc_time :: "'t hass \<Rightarrow> string \<Rightarrow> nat \<Rightarrow> listener \<times> 't hass" where
  "track_point_in_utc_time hs name point_in_time =
     (let l = (next_listener hs, point_in_time, name)
      in (l, hs\<lparr>listeners := listeners hs @ [l], next_listener := Suc (next_listener hs)\<rparr>))"

definition remove_listener :: "listener \<Rightarrow> 't hass \<Rightarrow> 't hass" where
  "remove_listener l hs = hs\<lparr>listeners := removeAll l (listeners hs)\<rparr>"

definition async_add_executor_job :: "string \<Rightarrow> 't \<Rightarrow> 't hass \<Rightarrow> 't hass" where
  "async_add_executor_job name v hs = hs\<lparr>executor_jobs := executor_jobs hs @ [(name, v)]\<rparr>"

definition async_call :: "'t service_call \<Rightarrow> 't hass \<Rightarrow> 't hass" where
  "async_call c hs = hs\<lparr>service_calls := service_calls hs @ [c]\<rparr>"

subsection \<open>HomeAccessory\<close>

text \<open>
  The fields of \<^verbatim>\<open>HomeAccessory\<close> that the setters and \<^verbatim>\<open>debounce\<close> use. (The field
  \<^verbatim>\<open>entity_id\<close> is called \<open>acc_entity_id\<close> here, the registry entry has the other
  name.) \<^verbatim>\<open>self.debounce\<close> maps the name of a debounced function to the tuple
  \<^verbatim>\<open>(remove_listener, *args)\<close>; the protocol library calls a setter with one argument,
  the written value.
\<close>

record 't home_accessory =
  hass :: "'t hass"
  acc_entity_id :: string
  debounce :: "string \<rightharpoonup> (listener \<times> 't)"

text \<open>
  \<^verbatim>\<open>call_service\<close> hands \<^verbatim>\<open>async_call_service\<close> to the hub, which makes the service
  call. (The event fired along with it is not modelled.)
\<close>

definition call_service ::
  "string \<Rightarrow> string \<Rightarrow> (string \<times> 't pyval) list
     \<Rightarrow> ('t, 'z) home_accessory_scheme \<Rightarrow> ('t, 'z) home_accessory_scheme" where
  "call_service dmn service service_data acc =
     acc\<lparr>hass := async_call (dmn, service, service_data) (hass acc)\<rparr>"

subsection \<open>The decorator \<^verbatim>\<open>debounce\<close>\<close>

text \<open>
  \<^verbatim>\<open>wrapper\<close> is what a decorated setter is from outside. Its first three lines take
  the pending entry of this function out of \<^verbatim>\<open>self.debounce\<close> and remove its listener;
  only then the new listener is registered and the new entry stored.
  \<open>DEBOUNCE_TIMEOUT\<close> is a constant of \<^verbatim>\<open>const.py\<close>, a module that is not modelled
  here: it is a parameter, in ticks.
\<close>

definition cancel_pending ::
  "string \<Rightarrow> ('t, 'z) home_accessory_scheme \<Rightarrow> ('t, 'z) home_accessory_scheme" where
  "cancel_pending name acc =
     (let debounce_params = debounce acc name;
          acc1 = acc\<lparr>debounce := (debounce acc)(name := None)\<rparr>
      in case debounce_params of
           None \<Rightarrow> acc1
         | Some (l, _) \<Rightarrow> acc1\<lparr>hass := remove_listener l (hass acc1)\<rparr>)"

definition wrapper ::
  "nat \<Rightarrow> string \<Rightarrow> 't \<Rightarrow> ('t, 'z) home_accessory_scheme \<Rightarrow> ('t, 'z) home_accessory_scheme" where
  "wrapper DEBOUNCE_TIMEOUT name v acc =
     (let acc1 = cancel_pending name acc;
          (l, hs) = track_point_in_utc_time (hass acc1) name
                      (utcnow (hass acc1) + DEBOUNCE_TIMEOUT)
      in acc1\<lparr>hass := hs, debounce := (debounce acc1)(name \<mapsto> (l, v))\<rparr>)"

definition call_later_listener ::
  "string \<Rightarrow> ('t, 'z) home_accessory_scheme \<Rightarrow> ('t, 'z) home_accessory_scheme" where
  "call_later_listener name acc =
     (let debounce_params = debounce acc name;
          acc1 = acc\<lparr>debounce := (debounce acc)(name := None)\<rparr>
      in case debounce_params of
           None \<Rightarrow> acc1
         | Some (_, v) \<Rightarrow> acc1\<lparr>hass := async_add_executor_job name v (hass acc1)\<rparr>)"

text \<open>
  Time passing. The clock moves on by \<open>d\<close> ticks; every listener whose point in time
  has come is removed (it is one-shot) and run, in the order of registration.
\<close>

definition fire ::
  "('t, 'z) home_accessory_scheme \<Rightarrow> listener \<Rightarrow> ('t, 'z) home_accessory_scheme" where
  "fire acc l =
     call_later_listener (snd (snd l)) (acc\<lparr>hass := remove_listener l (hass acc)\<rparr>)"

definition time_passes ::
  "nat \<Rightarrow> ('t, 'z) home_accessory_scheme \<Rightarrow> ('t, 'z) home_accessory_scheme" where
  "time_passes d acc =
     (let now = utcnow (hass acc) + d;
          acc1 = acc\<lparr>hass := (hass acc)\<lparr>utcnow := now\<rparr>\<rparr>;
          due = filter (\<lambda>l. fst (snd l) \<le> now) (listeners (hass acc1))
      in foldl fire acc1 due)"

text \<open>
  The executor working off its queue: \<open>funcs name v\<close> is the call \<^verbatim>\<open>func(self, v)\<close> of
  the function with that name.
\<close>

definition run_executor_jobs ::
  "(string \<Rightarrow> 't \<Rightarrow> ('t, 'z) home_accessory_scheme \<Rightarrow> ('t, 'z) home_accessory_scheme)
     \<Rightarrow> ('t, 'z) home_accessory_scheme \<Rightarrow> ('t, 'z) home_accessory_scheme" where
  "run_executor_jobs funcs acc =
     foldl (\<lambda>a job. funcs (fst job) (snd job) a)
       (acc\<lparr>hass := (hass acc)\<lparr>executor_jobs := []\<rparr>\<rparr>) (executor_jobs (hass acc))"

text \<open>
  A burst of writes to one debounced setter: each write comes with the number of ticks
  since the one before.
\<close>

fun burst ::
  "nat \<Rightarrow> string \<Rightarrow> (nat \<times> 't) list \<Rightarrow> ('t, 'z) home_accessory_scheme
     \<Rightarrow> ('t, 'z) home_accessory_scheme" where
  "burst DEBOUNCE_TIMEOUT name [] acc = acc"
| "burst DEBOUNCE_TIMEOUT name ((d, v) # ws) acc =
     burst DEBOUNCE_TIMEOUT name ws (wrapper DEBOUNCE_TIMEOUT name v (time_passes d acc))"

subsection \<open>States of the debounce machinery\<close>

text \<open>
  The listeners that are pending for a debounced function, and the invariant that ties
  them to \<^verbatim>\<open>self.debounce\<close>: a function with an entry has exactly the listener of that
  entry pending, a function without an entry has none.
\<close>

definition pending :: "string \<Rightarrow> 't hass \<Rightarrow> listener list" where
  "pending name hs = filter (\<lambda>l. snd (snd l) = name) (listeners hs)"

definition debounce_ok :: "('t, 'z) home_accessory_scheme \<Rightarrow> bool" where
  "debounce_ok acc \<longleftrightarrow>
     (\<forall>n. pending n (hass acc) = (case debounce acc n of None \<Rightarrow> [] | Some (l, v) \<Rightarrow> [l]))"

text \<open>
  An accessory is quiet when no write is pending and the executor has nothing to do.
  Relative to a quiet accessory \<open>acc0\<close>, \<open>settled\<close> describes the states that differ
  from it in the clock and the listener counter only, and \<open>armed\<close> those that in
  addition have one write of \<open>v\<close> pending for \<open>name\<close>, due in \<open>r\<close> ticks.
\<close>

definition quiet :: "('t, 'z) home_accessory_scheme \<Rightarrow> bool" where
  "quiet acc \<longleftrightarrow>
     debounce acc = Map.empty \<and> listeners (hass acc) = [] \<and> executor_jobs (hass acc) = []"

definition settled :: "('t, 'z) home_accessory_scheme \<Rightarrow> ('t, 'z) home_accessory_scheme \<Rightarrow> bool" where
  "settled acc0 acc \<longleftrightarrow>
     (\<exists>now nl. acc = acc0\<lparr>hass := (hass acc0)\<lparr>utcnow := now, next_listener := nl\<rparr>\<rparr>)"

definition armed ::
  "('t, 'z) home_accessory_scheme \<Rightarrow> string \<Rightarrow> 't \<Rightarrow> nat \<Rightarrow> ('t, 'z) home_accessory_scheme \<Rightarrow> bool" where
  "armed acc0 name v r acc \<longleftrightarrow>
     (\<exists>h now nl.
        acc = acc0\<lparr>hass := (hass acc0)\<lparr>utcnow := now, listeners := [(h, now + r, name)],
                                       next_listener := nl\<rparr>,
                   debounce := [name \<mapsto> ((h, now + r, name), v)]\<rparr>)"

subsection \<open>Characteristics\<close>

text \<open>
  A characteristic of the protocol library holds a value; \<^verbatim>\<open>set_value\<close> stores a new
  one and notifies the controllers. \<open>notified\<close> lists the values so passed, oldest
  first. \<^verbatim>\<open>configure_char\<close> gives the initial value.
\<close>

record 'a characteristic =
  char_value :: 'a
  notified :: "'a list"

definition configure_char :: "'a \<Rightarrow> 'a characteristic" where
  "configure_char v = \<lparr>char_value = v, notified = []\<rparr>"

definition set_value :: "'a \<Rightarrow> 'a characteristic \<Rightarrow> 'a characteristic" where
  "set_value v c = c\<lparr>char_value := v, notified := notified c @ [v]\<rparr>"

section \<open>Locks (type_locks.py)\<close>

text \<open>The hub's constants that the module imports.\<close>

definition STATE_LOCKED :: string where
  "STATE_LOCKED = ''locked''"

definition STATE_UNLOCKED :: string where
  "STATE_UNLOCKED = ''unlocked''"

definition STATE_UNKNOWN :: string where
  "STATE_UNKNOWN = ''unknown''"

definition ATTR_CODE :: string where
  "ATTR_CODE = ''code''"

definition ATTR_ENTITY_ID :: string where
  "ATTR_ENTITY_ID = ''entity_id''"

definition DOMAIN :: string where
  "DOMAIN = ''lock''"

text \<open>
  The three dicts of the module. A dict literal is the list of its items; the dict
  comprehension that inverts it lets a later item win over an earlier one with the same
  key.
\<close>

definition HASS_TO_HOMEKIT_items :: "(string \<times> int) list" where
  "HASS_TO_HOMEKIT_items = [(STATE_UNLOCKED, 0), (STATE_LOCKED, 1), (STATE_UNKNOWN, 3)]"

definition HASS_TO_HOMEKIT :: "string \<rightharpoonup> int" where
  "HASS_TO_HOMEKIT = map_of HASS_TO_HOMEKIT_items"

definition HOMEKIT_TO_HASS :: "int \<rightharpoonup> string" where
  "HOMEKIT_TO_HASS = map_of (rev (map (\<lambda>(s, c). (c, s)) HASS_TO_HOMEKIT_items))"

definition STATE_TO_SERVICE :: "string \<rightharpoonup> string" where
  "STATE_TO_SERVICE = map_of [(STATE_LOCKED, ''lock''), (STATE_UNLOCKED, ''unlock'')]"

text \<open>A state object of the hub, as far as the lock reads it.\<close>

record hass_state =
  state :: string

record 't lock = "'t home_accessory" +
  code :: "string option"
  flag_state :: bool
  char_current_state :: "int characteristic"
  char_target_state :: "int characteristic"

text \<open>
  \<^verbatim>\<open>Lock.__init__\<close>: the current state starts as \<^verbatim>\<open>HASS_TO_HOMEKIT[STATE_UNKNOWN]\<close>,
  which is 3, the target state as \<^verbatim>\<open>HASS_TO_HOMEKIT[STATE_LOCKED]\<close>, which is 1.
\<close>

definition Lock :: "'t hass \<Rightarrow> string \<Rightarrow> (string \<rightharpoonup> string) \<Rightarrow> 't lock" where
  "Lock hs eid config =
     \<lparr>hass = hs, acc_entity_id = eid, debounce = Map.empty,
      code = config ATTR_CODE, flag_state = False,
      char_current_state = configure_char 3,
      char_target_state = configure_char 1\<rparr>"

text \<open>
  \<^verbatim>\<open>set_state\<close>. \<^verbatim>\<open>HOMEKIT_TO_HASS.get(value)\<close> may be \<^verbatim>\<open>None\<close>, and
  \<^verbatim>\<open>STATE_TO_SERVICE[hass_value]\<close> raises \<^verbatim>\<open>KeyError\<close> for anything but the two
  states it lists; the flag is set by then. \<^verbatim>\<open>if self._code\<close> holds for a code that is
  neither \<^verbatim>\<open>None\<close> nor empty.
\<close>

definition set_state :: "int \<Rightarrow> 't lock \<Rightarrow> (error + unit) \<times> 't lock" where
  "set_state v lk =
     (let lk1 = lk\<lparr>flag_state := True\<rparr>;
          hass_value = HOMEKIT_TO_HASS v
      in case Option.bind hass_value STATE_TO_SERVICE of
           None \<Rightarrow> (Inl KeyError, lk1)
         | Some service \<Rightarrow>
             (let params = [(ATTR_ENTITY_ID, Str (acc_entity_id lk1))];
                  params = (case code lk1 of
                              None \<Rightarrow> params
                            | Some c \<Rightarrow> if c \<noteq> [] then params @ [(ATTR_CODE, Str c)]
                                        else params)
              in (Inr (), call_service DOMAIN service params lk1)))"

definition update_state :: "hass_state \<Rightarrow> 't lock \<Rightarrow> 't lock" where
  "update_state new_state lk =
     (let hass_state = state new_state
      in case HASS_TO_HOMEKIT hass_state of
           None \<Rightarrow> lk
         | Some current_lock_state \<Rightarrow>
             (let lk1 = lk\<lparr>char_current_state :=
                            set_value current_lock_state (char_current_state lk)\<rparr>
              in if hass_state \<in> set [STATE_LOCKED, STATE_UNLOCKED] then
                   (let lk2 = (if \<not> flag_state lk1
                               then lk1\<lparr>char_target_state :=
                                          set_value current_lock_state (char_target_state lk1)\<rparr>
                               else lk1)
                    in lk2\<lparr>flag_state := False\<rparr>)
                 else lk1))"

section \<open>Thermostats (type_thermostats.py)\<close>

definition ATTR_TARGET_TEMP_HIGH :: string where
  "ATTR_TARGET_TEMP_HIGH = ''target_temp_high''"

definition ATTR_TARGET_TEMP_LOW :: string where
  "ATTR_TARGET_TEMP_LOW = ''target_temp_low''"

definition ATTR_TEMPERATURE :: string where
  "ATTR_TEMPERATURE = ''temperature''"

definition DOMAIN_CLIMATE :: string where
  "DOMAIN_CLIMATE = ''climate''"

definition SERVICE_SET_TEMPERATURE_THERMOSTAT :: string where
  "SERVICE_SET_TEMPERATURE_THERMOSTAT = ''set_temperature''"

text \<open>
  The fields of \<^verbatim>\<open>Thermostat\<close> that its three debounced setters touch. The two threshold
  characteristics exist when the entity supports a temperature range, and are \<^verbatim>\<open>None\<close>
  otherwise.
\<close>

record 't thermostat = "'t home_accessory" +
  unit :: string
  flag_temperature :: bool
  flag_coolingthresh :: bool
  flag_heatingthresh :: bool
  char_target_temp :: "'t characteristic"
  char_cooling_thresh_temp :: "'t characteristic option"
  char_heating_thresh_temp :: "'t characteristic option"

text \<open>
  The setters, as they are under the decorator. \<^verbatim>\<open>temperature_to_states\<close> is a function
  of \<^verbatim>\<open>util.py\<close>, a module that is not modelled here: it is a parameter. Reading
  \<^verbatim>\<open>.value\<close> of a characteristic that is \<^verbatim>\<open>None\<close> raises \<^verbatim>\<open>AttributeError\<close>, after the
  flag has been set.
\<close>

definition set_cooling_threshold ::
  "('t \<Rightarrow> string \<Rightarrow> 't) \<Rightarrow> 't \<Rightarrow> 't thermostat \<Rightarrow> (error + unit) \<times> 't thermostat" where
  "set_cooling_threshold temperature_to_states v th =
     (let th1 = th\<lparr>flag_coolingthresh := True\<rparr>
      in case char_heating_thresh_temp th1 of
           None \<Rightarrow> (Inl AttributeError, th1)
         | Some c \<Rightarrow>
             (let low = char_value c;
                  temperature = temperature_to_states v (unit th1);
                  params = [(ATTR_ENTITY_ID, Str (acc_entity_id th1)),
                            (ATTR_TARGET_TEMP_HIGH, Num temperature),
                            (ATTR_TARGET_TEMP_LOW, Num (temperature_to_states low (unit th1)))]
              in (Inr (),
                  call_service DOMAIN_CLIMATE SERVICE_SET_TEMPERATURE_THERMOSTAT params th1)))"

definition set_heating_threshold ::
  "('t \<Rightarrow> string \<Rightarrow> 't) \<Rightarrow> 't \<Rightarrow> 't thermostat \<Rightarrow> (error + unit) \<times> 't thermostat" where
  "set_heating_threshold temperature_to_states v th =
     (let th1 = th\<lparr>flag_heatingthresh := True\<rparr>
      in case char_cooling_thresh_temp th1 of
           None \<Rightarrow> (Inl AttributeError, th1)
         | Some c \<Rightarrow>
             (let high = char_value c;
                  temperature = temperature_to_states v (unit th1);
                  params = [(ATTR_ENTITY_ID, Str (acc_entity_id th1)),
                            (ATTR_TARGET_TEMP_HIGH, Num (temperature_to_states high (unit th1))),
                            (ATTR_TARGET_TEMP_LOW, Num temperature)]
              in (Inr (),
                  call_service DOMAIN_CLIMATE SERVICE_SET_TEMPERATURE_THERMOSTAT params th1)))"

definition set_target_temperature ::
  "('t \<Rightarrow> string \<Rightarrow> 't) \<Rightarrow> 't \<Rightarrow> 't thermostat \<Rightarrow> (error + unit) \<times> 't thermostat" where
  "set_target_temperature temperature_to_states v th =
     (let th1 = th\<lparr>flag_temperature := True\<rparr>;
          temperature = temperature_to_states v (unit th1);
          params = [(ATTR_ENTITY_ID, Str (acc_entity_id th1)),
                    (ATTR_TEMPERATURE, Num temperature)]
      in (Inr (), call_service DOMAIN_CLIMATE SERVICE_SET_TEMPERATURE_THERMOSTAT params th1))"

text \<open>
  The functions that the executor runs for a thermostat, by name. An exception ends the
  job; what the function did before stays.
\<close>

definition thermostat_funcs ::
  "('t \<Rightarrow> string \<Rightarrow> 't) \<Rightarrow> string \<Rightarrow> 't \<Rightarrow> 't thermostat \<Rightarrow> 't thermostat" where
  "thermostat_funcs temperature_to_states name v th =
     (if name = ''set_cooling_threshold'' then snd (set_cooling_threshold temperature_to_states v th)
      else if name = ''set_heating_threshold'' then snd (set_heating_threshold temperature_to_states v th)
      else if name = ''set_target_temperature'' then snd (set_target_temperature temperature_to_states v th)
      else th)"

section \<open>Examples\<close>

subsection \<open>Two example tables\<close>

text \<open>
  One lock, allocated under the checksum of its entity id \<^verbatim>\<open>lock.front\<close> and saved; and a
  table in which every candidate of a second lock is already taken.
\<close>

definition front_lock :: storage where
  "front_lock =
     \<lparr>allocations = [''demo.lock.1'' \<mapsto> 363136001], allocated_aids = {363136001},
      save_scheduled = False,
      disk = Some [''unique_ids'' \<mapsto> [''demo.lock.1'' \<mapsto> 363136001]]\<rparr>"

definition full_house :: storage where
  "full_house =
     \<lparr>allocations = [''demo.lock.1'' \<mapsto> 363136001, ''demo.lock.3'' \<mapsto> 4234268675,
                     ''demo.lock.4'' \<mapsto> 2],
      allocated_aids = {363136001, 4234268675, 2},
      save_scheduled = False, disk = None\<rparr>"

subsection \<open>An example lock and an example thermostat\<close>

definition idle_hass :: "real hass" where
  "idle_hass =
     \<lparr>utcnow = 100, listeners = [], next_listener = 0, executor_jobs = [], service_calls = []\<rparr>"

definition front_door :: "real lock" where
  "front_door = Lock idle_hass ''lock.front'' [''code'' \<mapsto> ''1234'']"

text \<open>
  A thermostat of a hub that counts in degrees Celsius (the unit is the degree sign and
  \<open>C\<close>, in UTF-8), with the threshold characteristics at 24.0 (cooling) and 18.0
  (heating).
\<close>

definition living_room :: "real thermostat" where
  "living_room =
     \<lparr>hass = idle_hass, acc_entity_id = ''climate.living_room'', debounce = Map.empty,
      unit = [CHR 0xC2, CHR 0xB0, CHR ''C''], flag_temperature = False, flag_coolingthresh = False,
      flag_heatingthresh = False,
      char_target_temp = configure_char 21,
      char_cooling_thresh_temp = Some (configure_char 24),
      char_heating_thresh_temp = Some (configure_char 18)\<rparr>"

text \<open>Three writes, the second 2 ticks after the first and the third 4 ticks later.\<close>

definition three_writes :: "(nat \<times> real) list" where
  "three_writes = [(0, 22), (2, 23), (4, 24)]"

section \<open>Properties of the allocation table\<close>

subsection \<open>Candidates\<close>

lemma INVALID_AIDS_set: "set INVALID_AIDS = {0, 1}"
  by (simp add: INVALID_AIDS_def insert_commute)

lemma random_aid_range: "2 \<le> random_aid r \<and> random_aid r \<le> 18446744073709551614"
proof -
  have "r mod 18446744073709551613 < 18446744073709551613" by simp
  then show ?thesis by (simp add: random_aid_def AID_MIN_def AID_MAX_def)
qed

lemma random_aid_onto:
  "2 \<le> v \<Longrightarrow> v \<le> 18446744073709551614 \<Longrightarrow> random_aid (v - 2) = v"
  by (simp add: random_aid_def AID_MIN_def AID_MAX_def)

lemma length_generate_aids: "length (generate_aids uid eid raw) = 7"
  by (simp add: generate_aids_def)

lemma generate_aids_unfold:
  "generate_aids uid eid raw =
     [adler32 eid, fnv1a_32 uid, random_aid (raw 0), random_aid (raw 1),
      random_aid (raw 2), random_aid (raw 3), random_aid (raw 4)]"
  by (simp add: generate_aids_def upt_rec numeral_nat)

lemma adler32_lock_front: "adler32 ''lock.front'' = 363136001"
  by (simp add: adler32_def adler32_step_def)

lemma fnv1a_32_demo_lock_2: "fnv1a_32 ''demo.lock.2'' = 4234268675"
  by (simp add: fnv1a_32_def fnv1a_32_step_def)

lemma generate_aids_example:
  "generate_aids ''demo.lock.2'' ''lock.front'' (\<lambda>_. 0)
     = [363136001, 4234268675, 2, 2, 2, 2, 2]"
  by (simp add: generate_aids_unfold adler32_lock_front fnv1a_32_demo_lock_2
      random_aid_def AID_MIN_def AID_MAX_def)

subsection \<open>The loop\<close>

lemma allocate_from_all_taken:
  "\<forall>c\<in>set cs. c \<in> set INVALID_AIDS \<or> c \<in> allocated_aids st \<Longrightarrow>
   allocate_from st uid eid cs =
     (Inl (ValueError (''Unable to generate unique aid allocation for '' @ eid
                        @ '' ['' @ uid @ '']'')), st)"
  by (induction cs) auto

lemma allocate_from_first:
  "k < length cs \<Longrightarrow> cs ! k \<notin> set INVALID_AIDS \<Longrightarrow> cs ! k \<notin> allocated_aids st \<Longrightarrow>
   \<forall>j<k. cs ! j \<in> set INVALID_AIDS \<or> cs ! j \<in> allocated_aids st \<Longrightarrow>
   fst (allocate_from st uid eid cs) = Inr (cs ! k) \<and>
   recorded st uid (cs ! k) (snd (allocate_from st uid eid cs))"
proof (induction cs arbitrary: k)
  case Nil
  then show ?case by simp
next
  case (Cons c cs)
  show ?case
  proof (cases k)
    case 0
    with Cons.prems show ?thesis by (simp add: recorded_def async_schedule_save_def)
  next
    case (Suc k')
    from Cons.prems(4) Suc have c: "c \<in> set INVALID_AIDS \<or> c \<in> allocated_aids st"
      by auto
    from Cons.prems(4) Suc
    have rest: "\<forall>j<k'. cs ! j \<in> set INVALID_AIDS \<or> cs ! j \<in> allocated_aids st"
      by auto
    from Cons.prems Suc have "fst (allocate_from st uid eid cs) = Inr (cs ! k') \<and>
        recorded st uid (cs ! k') (snd (allocate_from st uid eid cs))"
      using Cons.IH [of k'] rest by simp
    with c Suc show ?thesis by auto
  qed
qed

lemma allocate_from_cases:
  "(\<exists>e. allocate_from st uid eid cs = (Inl e, st)) \<or>
   (\<exists>c st'. c \<notin> set INVALID_AIDS \<and> c \<notin> allocated_aids st \<and>
        allocate_from st uid eid cs = (Inr c, st') \<and> recorded st uid c st')"
  by (induction cs) (auto simp: recorded_def async_schedule_save_def)

lemma get_or_allocate_aid_cases:
  "(\<exists>e. get_or_allocate_aid st uid eid raw = (Inl e, st)) \<or>
   (\<exists>a. allocations st uid = Some a \<and> get_or_allocate_aid st uid eid raw = (Inr a, st)) \<or>
   (\<exists>c st'. allocations st uid = None \<and> c \<notin> set INVALID_AIDS \<and> c \<notin> allocated_aids st \<and>
        get_or_allocate_aid st uid eid raw = (Inr c, st') \<and> recorded st uid c st')"
proof (cases "allocations st uid")
  case None
  then show ?thesis
    using allocate_from_cases [of st uid eid "generate_aids uid eid raw"]
    by (simp add: get_or_allocate_aid_def)
next
  case (Some a)
  then show ?thesis by (simp add: get_or_allocate_aid_def)
qed

lemma get_or_allocate_aid_recorded:
  "get_or_allocate_aid st uid eid raw = (Inr a, st') \<Longrightarrow> allocations st' uid = Some a"
  using get_or_allocate_aid_cases [of st uid eid raw] by (auto simp: recorded_def)

lemma restart_store_write: "allocations (restart (store_write st)) = allocations st"
  by (simp add: restart_def store_write_def async_initialize_def init_storage_def
      data_to_save_def Let_def)

subsection \<open>Stability\<close>

text \<open>
  Claim C1. An identity that is in the table gets the aid stored for it, and the object
  is exactly as before (no entry, no set member, no save request). Hence whatever a
  call returned for an identity, every later call returns it too, whatever the entity
  id and the random generator are by then, and so does a call on a new object loaded
  from the saved table.
\<close>

theorem get_or_allocate_aid_stable:
  "(allocations st uid = Some aid \<longrightarrow> get_or_allocate_aid st uid eid raw = (Inr aid, st)) \<and>
   (get_or_allocate_aid st uid eid raw = (Inr aid, st') \<longrightarrow>
      get_or_allocate_aid st' uid eid' raw' = (Inr aid, st') \<and>
      get_or_allocate_aid (restart (store_write st')) uid eid' raw'
        = (Inr aid, restart (store_write st')))"
proof (intro conjI impI)
  assume "allocations st uid = Some aid"
  then show "get_or_allocate_aid st uid eid raw = (Inr aid, st)"
    by (simp add: get_or_allocate_aid_def)
next
  assume "get_or_allocate_aid st uid eid raw = (Inr aid, st')"
  then have rec: "allocations st' uid = Some aid"
    by (rule get_or_allocate_aid_recorded)
  then show "get_or_allocate_aid st' uid eid' raw' = (Inr aid, st')"
    by (simp add: get_or_allocate_aid_def)
  from rec have "allocations (restart (store_write st')) uid = Some aid"
    by (simp add: restart_store_write)
  then show "get_or_allocate_aid (restart (store_write st')) uid eid' raw'
        = (Inr aid, restart (store_write st'))"
    by (simp add: get_or_allocate_aid_def)
qed

theorem get_or_allocate_aid_stable_witness:
  "allocations front_lock ''demo.lock.1'' = Some 363136001 \<and>
   get_or_allocate_aid front_lock ''demo.lock.1'' ''lock.front'' (\<lambda>_. 0)
     = (Inr 363136001, front_lock) \<and>
   get_or_allocate_aid front_lock ''demo.lock.1'' ''lock.renamed'' (\<lambda>_. 7)
     = (Inr 363136001, front_lock) \<and>
   get_or_allocate_aid (restart (store_write front_lock)) ''demo.lock.1'' ''lock.renamed'' (\<lambda>_. 7)
     = (Inr 363136001, restart (store_write front_lock))"
proof -
  have present: "allocations front_lock ''demo.lock.1'' = Some 363136001"
    by (simp add: front_lock_def)
  from get_or_allocate_aid_stable
    [where st = front_lock and st' = front_lock and uid = "''demo.lock.1''"
       and aid = 363136001 and eid = "''lock.front''" and raw = "\<lambda>_. 0"
       and eid' = "''lock.renamed''" and raw' = "\<lambda>_. 7"]
    present
  show ?thesis by simp
qed

subsection \<open>The order of the candidates\<close>

text \<open>
  Claim C2, as the code has it. The candidates are, in this order, the Adler-32 checksum
  of the entity id, the FNV-1a hash of the unique id, and five random draws. A draw is
  \<^verbatim>\<open>randrange(AID_MIN, AID_MAX)\<close>, whose values are exactly the integers from 2 to
  \<open>2^64 - 2\<close>: the stop value \<open>AID_MAX = 2^64 - 1\<close> is excluded. For an identity that is
  not in the table yet, the first candidate that is neither 0 nor 1 nor in
  \<open>allocated_aids\<close> is returned, stored under the identity, added to the set, and a
  save is requested.
\<close>

theorem get_or_allocate_aid_first_free_candidate:
  "generate_aids uid eid raw =
     [adler32 eid, fnv1a_32 uid, random_aid (raw 0), random_aid (raw 1),
      random_aid (raw 2), random_aid (raw 3), random_aid (raw 4)]
   \<and> ((\<exists>r. random_aid r = v) \<longleftrightarrow> 2 \<le> v \<and> v \<le> 18446744073709551614)
   \<and> (allocations st uid = None \<longrightarrow> k < 7 \<longrightarrow>
        generate_aids uid eid raw ! k \<notin> {0, 1} \<longrightarrow>
        generate_aids uid eid raw ! k \<notin> allocated_aids st \<longrightarrow>
        (\<forall>j<k. generate_aids uid eid raw ! j \<in> {0, 1}
               \<or> generate_aids uid eid raw ! j \<in> allocated_aids st) \<longrightarrow>
        (\<exists>st'. get_or_allocate_aid st uid eid raw = (Inr (generate_aids uid eid raw ! k), st')
             \<and> allocations st' = (allocations st)(uid \<mapsto> generate_aids uid eid raw ! k)
             \<and> allocated_aids st' = insert (generate_aids uid eid raw ! k) (allocated_aids st)
             \<and> save_scheduled st' \<and> disk st' = disk st))"
proof (intro conjI impI)
  show "generate_aids uid eid raw =
     [adler32 eid, fnv1a_32 uid, random_aid (raw 0), random_aid (raw 1),
      random_aid (raw 2), random_aid (raw 3), random_aid (raw 4)]"
    by (rule generate_aids_unfold)
next
  show "(\<exists>r. random_aid r = v) \<longleftrightarrow> 2 \<le> v \<and> v \<le> 18446744073709551614"
    using random_aid_range random_aid_onto by blast
next
  let ?cs = "generate_aids uid eid raw"
  assume none: "allocations st uid = None" and k: "k < 7"
    and ok: "?cs ! k \<notin> {0, 1}" "?cs ! k \<notin> allocated_aids st"
    and before: "\<forall>j<k. ?cs ! j \<in> {0, 1} \<or> ?cs ! j \<in> allocated_aids st"
  have "fst (allocate_from st uid eid ?cs) = Inr (?cs ! k) \<and>
        recorded st uid (?cs ! k) (snd (allocate_from st uid eid ?cs))"
    using k ok before
    by (intro allocate_from_first) (simp_all add: length_generate_aids INVALID_AIDS_set)
  with none show "\<exists>st'. get_or_allocate_aid st uid eid raw = (Inr (?cs ! k), st')
             \<and> allocations st' = (allocations st)(uid \<mapsto> ?cs ! k)
             \<and> allocated_aids st' = insert (?cs ! k) (allocated_aids st)
             \<and> save_scheduled st' \<and> disk st' = disk st"
    by (cases "allocate_from st uid eid ?cs") (simp add: get_or_allocate_aid_def recorded_def)
qed

text \<open>
  A second lock whose entity id has the checksum of the first one: the first candidate
  is taken, the second one is free and wins.
\<close>

theorem get_or_allocate_aid_first_free_candidate_witness:
  "allocations front_lock ''demo.lock.2'' = None \<and>
   generate_aids ''demo.lock.2'' ''lock.front'' (\<lambda>_. 0) ! 0 \<in> allocated_aids front_lock \<and>
   generate_aids ''demo.lock.2'' ''lock.front'' (\<lambda>_. 0) ! 1 = 4234268675 \<and>
   fst (get_or_allocate_aid front_lock ''demo.lock.2'' ''lock.front'' (\<lambda>_. 0))
     = Inr 4234268675 \<and>
   allocations (snd (get_or_allocate_aid front_lock ''demo.lock.2'' ''lock.front'' (\<lambda>_. 0)))
     ''demo.lock.2'' = Some 4234268675"
  using get_or_allocate_aid_first_free_candidate
    [where uid = "''demo.lock.2''" and eid = "''lock.front''" and raw = "\<lambda>_. 0"
       and v = 5 and st = front_lock and k = 1]
  by (auto simp: generate_aids_example front_lock_def)

text \<open>
  Claim C2 as the specification words it has the draws range over the closed interval
  up to \<open>2^64 - 1\<close>. No draw is \<open>2^64 - 1\<close>.
\<close>

theorem random_aid_never_AID_MAX:
  "\<not> (\<exists>raw. random_aid raw = 18446744073709551615)"
proof
  assume "\<exists>raw. random_aid raw = 18446744073709551615"
  then obtain r where "random_aid r = 18446744073709551615" ..
  with random_aid_range [of r] show False by simp
qed

subsection \<open>No aid twice\<close>

lemma ran_map_drop:
  assumes inj: "\<forall>u v a b. u \<noteq> v \<longrightarrow> m u = Some a \<longrightarrow> m v = Some b \<longrightarrow> a \<noteq> b"
    and at_k: "m k = Some a"
  shows "ran (m(k := None)) = ran m - {a}"
proof
  show "ran (m(k := None)) \<subseteq> ran m - {a}"
  proof
    fix b assume "b \<in> ran (m(k := None))"
    then obtain v where v: "(m(k := None)) v = Some b" by (auto simp: ran_def)
    then have "v \<noteq> k" "m v = Some b" by (auto split: if_splits)
    with inj at_k have "b \<noteq> a" by blast
    with \<open>m v = Some b\<close> show "b \<in> ran m - {a}" by (auto simp: ran_def)
  qed
next
  show "ran m - {a} \<subseteq> ran (m(k := None))"
  proof
    fix b assume "b \<in> ran m - {a}"
    then obtain v where v: "m v = Some b" "b \<noteq> a" by (auto simp: ran_def)
    with at_k have "v \<noteq> k" by auto
    with v show "b \<in> ran (m(k := None))" by (auto simp: ran_def)
  qed
qed

lemma table_ok_recorded:
  assumes "table_ok st" "allocations st uid = None" "c \<notin> allocated_aids st"
    "recorded st uid c st'"
  shows "table_ok st'"
proof -
  from assms(1) have ran: "allocated_aids st = ran (allocations st)"
    and inj: "\<forall>u v a b. u \<noteq> v \<longrightarrow> allocations st u = Some a \<longrightarrow>
                allocations st v = Some b \<longrightarrow> a \<noteq> b"
    by (simp_all add: table_ok_def)
  from assms(4) have a': "allocations st' = (allocations st)(uid \<mapsto> c)"
    and s': "allocated_aids st' = insert c (allocated_aids st)"
    by (simp_all add: recorded_def)
  from assms(3) ran have fresh: "\<forall>u. allocations st u \<noteq> Some c"
    by (auto simp: ran_def)
  have "allocated_aids st' = ran (allocations st')"
    using a' s' ran assms(2) by simp
  moreover have "\<forall>u v a b. u \<noteq> v \<longrightarrow> allocations st' u = Some a \<longrightarrow>
                   allocations st' v = Some b \<longrightarrow> a \<noteq> b"
    using inj fresh unfolding a' by (auto split: if_splits)
  ultimately show ?thesis by (simp add: table_ok_def)
qed

lemma table_ok_delete_aid: "table_ok st \<Longrightarrow> table_ok (delete_aid st uid)"
proof (cases "allocations st uid")
  case None
  assume "table_ok st"
  with None show ?thesis by (simp add: delete_aid_def)
next
  case (Some a)
  assume ok: "table_ok st"
  then have inj: "\<forall>u v a b. u \<noteq> v \<longrightarrow> allocations st u = Some a \<longrightarrow>
                    allocations st v = Some b \<longrightarrow> a \<noteq> b"
    and ran: "allocated_aids st = ran (allocations st)"
    by (simp_all add: table_ok_def)
  have r: "ran ((allocations st)(uid := None)) = ran (allocations st) - {a}"
    using inj Some by (rule ran_map_drop)
  have "\<forall>u v a b. u \<noteq> v \<longrightarrow> ((allocations st)(uid := None)) u = Some a \<longrightarrow>
          ((allocations st)(uid := None)) v = Some b \<longrightarrow> a \<noteq> b"
    using inj by (auto split: if_splits)
  with r ran Some show ?thesis
    by (simp add: delete_aid_def table_ok_def async_schedule_save_def)
qed

lemma table_ok_front_lock: "table_ok front_lock"
  by (auto simp: table_ok_def front_lock_def split: if_splits)

text \<open>
  Claim C3. In a table where no two identities share an aid and \<open>allocated_aids\<close> is
  the set of the stored aids, both hold again after \<^verbatim>\<open>_get_or_allocate_aid\<close> (whether
  it finds, allocates or raises) and after \<^verbatim>\<open>delete_aid\<close>.
\<close>

theorem table_ok_preserved:
  "table_ok st \<Longrightarrow>
   table_ok (snd (get_or_allocate_aid st uid eid raw)) \<and> table_ok (delete_aid st uid')"
proof
  assume ok: "table_ok st"
  from get_or_allocate_aid_cases [of st uid eid raw]
  show "table_ok (snd (get_or_allocate_aid st uid eid raw))"
    using ok by (auto intro: table_ok_recorded)
  from ok show "table_ok (delete_aid st uid')" by (rule table_ok_delete_aid)
qed

theorem table_ok_preserved_witness:
  "table_ok front_lock \<and>
   table_ok (snd (get_or_allocate_aid front_lock ''demo.lock.2'' ''lock.front'' (\<lambda>_. 0))) \<and>
   table_ok (delete_aid front_lock ''demo.lock.1'')"
  using table_ok_preserved [where st = front_lock and uid = "''demo.lock.2''"
      and eid = "''lock.front''" and raw = "\<lambda>_. 0" and uid' = "''demo.lock.1''"]
    table_ok_front_lock
  by simp

subsection \<open>Running out of candidates\<close>

text \<open>
  Claim C4. When the identity is not in the table and each of the seven candidates is 0,
  1 or in \<open>allocated_aids\<close>, the call raises \<^verbatim>\<open>ValueError\<close> and the object is as
  before. The call looks at seven candidates and no more; the model is a total function,
  so it always comes back.
\<close>

theorem get_or_allocate_aid_exhausted:
  "allocations st uid = None \<Longrightarrow>
   \<forall>c\<in>set (generate_aids uid eid raw). c \<in> {0, 1} \<or> c \<in> allocated_aids st \<Longrightarrow>
   get_or_allocate_aid st uid eid raw =
     (Inl (ValueError (''Unable to generate unique aid allocation for '' @ eid
                        @ '' ['' @ uid @ '']'')), st)
   \<and> length (generate_aids uid eid raw) = 7"
  using allocate_from_all_taken [of "generate_aids uid eid raw" st uid eid]
  by (simp add: get_or_allocate_aid_def INVALID_AIDS_set length_generate_aids)

theorem get_or_allocate_aid_exhausted_witness:
  "allocations full_house ''demo.lock.2'' = None \<and>
   set (generate_aids ''demo.lock.2'' ''lock.front'' (\<lambda>_. 0)) \<subseteq> allocated_aids full_house \<and>
   get_or_allocate_aid full_house ''demo.lock.2'' ''lock.front'' (\<lambda>_. 0) =
     (Inl (ValueError ''Unable to generate unique aid allocation for lock.front [demo.lock.2]''),
      full_house)"
proof -
  have none: "allocations full_house ''demo.lock.2'' = None"
    by (simp add: full_house_def)
  have taken: "\<forall>c\<in>set (generate_aids ''demo.lock.2'' ''lock.front'' (\<lambda>_. 0)).
       c \<in> {0, 1} \<or> c \<in> allocated_aids full_house"
    by (simp add: generate_aids_example full_house_def)
  have sub: "set (generate_aids ''demo.lock.2'' ''lock.front'' (\<lambda>_. 0))
      \<subseteq> allocated_aids full_house"
    by (simp add: generate_aids_example full_house_def)
  from get_or_allocate_aid_exhausted [OF none taken] none sub show ?thesis by simp
qed

subsection \<open>Deleting\<close>

text \<open>
  Claim C5, as the code has it. For an identity in the table, \<^verbatim>\<open>delete_aid\<close> removes the
  entry and takes the aid out of \<open>allocated_aids\<close> at once, and requests a save. It does
  not touch what is stored and does not wait: the stored data lose the entry when the
  store writes.
\<close>

theorem delete_aid_frees_at_once:
  "allocations st uid = Some aid \<Longrightarrow>
   allocations (delete_aid st uid) = (allocations st)(uid := None) \<and>
   aid \<notin> allocated_aids (delete_aid st uid) \<and>
   save_scheduled (delete_aid st uid) \<and>
   disk (delete_aid st uid) = disk st \<and>
   disk (store_write (delete_aid st uid))
     = Some [''unique_ids'' \<mapsto> (allocations st)(uid := None)]"
  by (simp add: delete_aid_def async_schedule_save_def store_write_def data_to_save_def)

theorem delete_aid_frees_at_once_witness:
  "allocations front_lock ''demo.lock.1'' = Some 363136001 \<and>
   allocations (delete_aid front_lock ''demo.lock.1'') ''demo.lock.1'' = None \<and>
   363136001 \<notin> allocated_aids (delete_aid front_lock ''demo.lock.1'') \<and>
   save_scheduled (delete_aid front_lock ''demo.lock.1'') \<and>
   disk (delete_aid front_lock ''demo.lock.1'') = disk front_lock"
proof -
  have present: "allocations front_lock ''demo.lock.1'' = Some 363136001"
    by (simp add: front_lock_def)
  from delete_aid_frees_at_once [OF present] present show ?thesis by simp
qed

text \<open>
  Claim C5 as the specification words it: the aid is free for reuse only once the removal
  is on disk. Here the first lock is deleted and, with no write in between, a second
  identity is given the very aid of the first, while the disk still lists the first lock
  under it.
\<close>

theorem delete_aid_frees_before_write:
  "disk (delete_aid front_lock ''demo.lock.1'')
     = Some [''unique_ids'' \<mapsto> [''demo.lock.1'' \<mapsto> 363136001]] \<and>
   fst (get_or_allocate_aid (delete_aid front_lock ''demo.lock.1'')
          ''demo.lock.2'' ''lock.front'' (\<lambda>_. 0)) = Inr 363136001 \<and>
   disk (snd (get_or_allocate_aid (delete_aid front_lock ''demo.lock.1'')
          ''demo.lock.2'' ''lock.front'' (\<lambda>_. 0)))
     = Some [''unique_ids'' \<mapsto> [''demo.lock.1'' \<mapsto> 363136001]]"
  by (simp add: delete_aid_def front_lock_def get_or_allocate_aid_def generate_aids_example
      async_schedule_save_def INVALID_AIDS_def)

subsection \<open>Entities without a registry entry\<close>

text \<open>
  Claim C10. For an entity id that the registry does not know,
  \<^verbatim>\<open>get_or_allocate_aid_for_entity_id\<close> returns the Adler-32 checksum of the entity id
  as it is: no comparison with 0, 1 or \<open>allocated_aids\<close> is made, and the object (table,
  set, save request) is exactly as before. So the result can be an aid that another
  identity holds, or a reserved one.
\<close>

theorem get_or_allocate_aid_for_entity_id_unregistered:
  "registry eid = None \<Longrightarrow>
   get_or_allocate_aid_for_entity_id registry st eid raw = (Inr (adler32 eid), st)"
  by (simp add: get_or_allocate_aid_for_entity_id_def)

text \<open>
  The unregistered entity \<^verbatim>\<open>lock.front\<close> is given the aid that the table holds for
  \<^verbatim>\<open>demo.lock.1\<close>; the empty entity id is given the reserved aid 1.
\<close>

theorem get_or_allocate_aid_for_entity_id_unregistered_witness:
  "get_or_allocate_aid_for_entity_id Map.empty front_lock ''lock.front'' (\<lambda>_. 0)
     = (Inr 363136001, front_lock) \<and>
   363136001 \<in> allocated_aids front_lock \<and>
   allocations front_lock ''demo.lock.1'' = Some 363136001 \<and>
   get_or_allocate_aid_for_entity_id Map.empty front_lock [] (\<lambda>_. 0) = (Inr 1, front_lock) \<and>
   1 \<in> set INVALID_AIDS"
proof -
  have a: "adler32 [] = 1" by (simp add: adler32_def)
  from get_or_allocate_aid_for_entity_id_unregistered
    [where registry = Map.empty and eid = "''lock.front''" and st = front_lock
       and raw = "\<lambda>_. 0"]
  have 1: "get_or_allocate_aid_for_entity_id Map.empty front_lock ''lock.front'' (\<lambda>_. 0)
     = (Inr 363136001, front_lock)"
    by (simp add: adler32_lock_front)
  from get_or_allocate_aid_for_entity_id_unregistered
    [where registry = Map.empty and eid = "[]" and st = front_lock and raw = "\<lambda>_. 0"]
  have 2: "get_or_allocate_aid_for_entity_id Map.empty front_lock [] (\<lambda>_. 0)
     = (Inr 1, front_lock)"
    by (simp add: a)
  from 1 2 show ?thesis by (simp add: front_lock_def INVALID_AIDS_def)
qed

section \<open>Properties of the lock\<close>

lemma HASS_TO_HOMEKIT_eq:
  "HASS_TO_HOMEKIT s =
     (if s = ''unlocked'' then Some 0 else if s = ''locked'' then Some 1
      else if s = ''unknown'' then Some 3 else None)"
  by (simp add: HASS_TO_HOMEKIT_def HASS_TO_HOMEKIT_items_def STATE_LOCKED_def
      STATE_UNLOCKED_def STATE_UNKNOWN_def)

lemma HOMEKIT_TO_HASS_eq:
  "HOMEKIT_TO_HASS v =
     (if v = 3 then Some ''unknown'' else if v = 1 then Some ''locked''
      else if v = 0 then Some ''unlocked'' else None)"
  by (simp add: HOMEKIT_TO_HASS_def HASS_TO_HOMEKIT_items_def STATE_LOCKED_def
      STATE_UNLOCKED_def STATE_UNKNOWN_def)

lemma STATE_TO_SERVICE_eq:
  "STATE_TO_SERVICE s =
     (if s = ''locked'' then Some ''lock'' else if s = ''unlocked'' then Some ''unlock''
      else None)"
  by (simp add: STATE_TO_SERVICE_def STATE_LOCKED_def STATE_UNLOCKED_def)

lemma set_state_valid:
  "v \<in> {0, 1} \<Longrightarrow>
   set_state v lk =
     (Inr (),
      call_service ''lock'' (if v = 0 then ''unlock'' else ''lock'')
        ((''entity_id'', Str (acc_entity_id lk)) #
           (case code lk of None \<Rightarrow> []
            | Some c \<Rightarrow> if c \<noteq> [] then [(''code'', Str c)] else []))
        (lk\<lparr>flag_state := True\<rparr>))"
  by (auto simp: set_state_def HOMEKIT_TO_HASS_eq STATE_TO_SERVICE_eq DOMAIN_def
      ATTR_ENTITY_ID_def ATTR_CODE_def Let_def split: option.splits)

lemma update_state_locked_or_unlocked:
  "HASS_TO_HOMEKIT (state new_state) = Some v \<Longrightarrow> v \<in> {0, 1} \<Longrightarrow>
   update_state new_state lk =
     lk\<lparr>char_current_state := set_value v (char_current_state lk),
        char_target_state := (if flag_state lk then char_target_state lk
                              else set_value v (char_target_state lk)),
        flag_state := False\<rparr>"
  by (auto simp: update_state_def HASS_TO_HOMEKIT_eq STATE_LOCKED_def STATE_UNLOCKED_def
      Let_def split: if_splits)

text \<open>
  Claim C7. The controller writes target state \<open>v\<close> (0 or 1): \<^verbatim>\<open>set_state\<close> sets the
  flag. When the hub then reports the state that stands for \<open>v\<close>, \<^verbatim>\<open>update_state\<close>
  leaves the target-state characteristic alone (no \<^verbatim>\<open>set_value\<close>, same value), issues no
  service call, and clears the flag. With the flag clear the same report does write the
  target state, so it is the flag that holds the write back.
\<close>

theorem set_state_echo_not_written_back:
  "v \<in> {0, 1} \<Longrightarrow> HASS_TO_HOMEKIT (state echo) = Some v \<Longrightarrow>
   fst (set_state v lk) = Inr () \<and>
   flag_state (snd (set_state v lk)) \<and>
   char_target_state (update_state echo (snd (set_state v lk))) = char_target_state lk \<and>
   \<not> flag_state (update_state echo (snd (set_state v lk))) \<and>
   hass (update_state echo (snd (set_state v lk))) = hass (snd (set_state v lk)) \<and>
   notified (char_target_state (update_state echo (update_state echo (snd (set_state v lk)))))
     = notified (char_target_state lk) @ [v]"
  by (simp add: set_state_valid update_state_locked_or_unlocked call_service_def set_value_def)

theorem set_state_echo_not_written_back_witness:
  "HASS_TO_HOMEKIT (state \<lparr>state = ''unlocked''\<rparr>) = Some 0 \<and>
   flag_state (snd (set_state 0 front_door)) \<and>
   notified (char_target_state
     (update_state \<lparr>state = ''unlocked''\<rparr> (snd (set_state 0 front_door)))) = [] \<and>
   \<not> flag_state (update_state \<lparr>state = ''unlocked''\<rparr> (snd (set_state 0 front_door)))"
proof -
  have echo: "HASS_TO_HOMEKIT (state \<lparr>state = ''unlocked''\<rparr>) = Some 0"
    by (simp add: HASS_TO_HOMEKIT_eq)
  have v: "(0::int) \<in> {0, 1}" by simp
  from set_state_echo_not_written_back [OF v echo, of front_door] echo
  show ?thesis by (simp add: front_door_def Lock_def configure_char_def)
qed

text \<open>
  Claim C8. A report of the hub state \<^verbatim>\<open>locked\<close> sets the current-state characteristic
  to 1. A controller write of 0 makes exactly one service call: \<^verbatim>\<open>unlock\<close> in the domain
  \<^verbatim>\<open>lock\<close>, with the entity id of the lock, and with the code when one is configured.
\<close>

theorem locked_is_1_and_0_unlocks:
  "char_value (char_current_state (update_state \<lparr>state = ''locked''\<rparr> lk)) = 1 \<and>
   fst (set_state 0 lk) = Inr () \<and>
   service_calls (hass (snd (set_state 0 lk))) =
     service_calls (hass lk) @
       [(''lock'', ''unlock'',
         (''entity_id'', Str (acc_entity_id lk)) #
           (case code lk of None \<Rightarrow> []
            | Some c \<Rightarrow> if c \<noteq> [] then [(''code'', Str c)] else []))]"
proof -
  have "HASS_TO_HOMEKIT (state \<lparr>state = ''locked''\<rparr>) = Some 1"
    by (simp add: HASS_TO_HOMEKIT_eq)
  then have "char_value (char_current_state (update_state \<lparr>state = ''locked''\<rparr> lk)) = 1"
    by (simp add: update_state_locked_or_unlocked set_value_def)
  then show ?thesis
    by (simp add: set_state_valid call_service_def async_call_def)
qed

theorem locked_is_1_and_0_unlocks_witness:
  "char_value (char_current_state (update_state \<lparr>state = ''locked''\<rparr> front_door)) = 1 \<and>
   service_calls (hass (snd (set_state 0 front_door))) =
     [(''lock'', ''unlock'', [(''entity_id'', Str ''lock.front''), (''code'', Str ''1234'')])]"
  using locked_is_1_and_0_unlocks [of front_door]
  by (simp add: front_door_def Lock_def idle_hass_def ATTR_CODE_def)

section \<open>Properties of debounced setters\<close>

subsection \<open>One burst\<close>

lemma settled_refl: "settled acc acc"
  unfolding settled_def
  by (rule exI [of _ "utcnow (hass acc)"], rule exI [of _ "next_listener (hass acc)"]) simp

lemma settled_time_passes:
  assumes "quiet acc0" "settled acc0 acc"
  shows "settled acc0 (time_passes d acc)"
proof -
  from assms(2) obtain now nl
    where acc: "acc = acc0\<lparr>hass := (hass acc0)\<lparr>utcnow := now, next_listener := nl\<rparr>\<rparr>"
    unfolding settled_def by blast
  have "time_passes d acc = acc0\<lparr>hass := (hass acc0)\<lparr>utcnow := now + d, next_listener := nl\<rparr>\<rparr>"
    using assms(1) by (simp add: acc quiet_def time_passes_def Let_def)
  then show ?thesis unfolding settled_def by blast
qed

lemma settled_wrapper:
  assumes "quiet acc0" "settled acc0 acc"
  shows "armed acc0 name v T (wrapper T name v acc)"
proof -
  from assms(2) obtain now nl
    where acc: "acc = acc0\<lparr>hass := (hass acc0)\<lparr>utcnow := now, next_listener := nl\<rparr>\<rparr>"
    unfolding settled_def by blast
  have "wrapper T name v acc =
      acc0\<lparr>hass := (hass acc0)\<lparr>utcnow := now, listeners := [(nl, now + T, name)],
                                  next_listener := Suc nl\<rparr>,
           debounce := [name \<mapsto> ((nl, now + T, name), v)]\<rparr>"
    using assms(1)
    by (simp add: acc quiet_def wrapper_def cancel_pending_def track_point_in_utc_time_def
        Let_def)
  then show ?thesis unfolding armed_def by blast
qed

lemma armed_time_passes:
  "armed acc0 name v r acc \<Longrightarrow> d < r \<Longrightarrow> armed acc0 name v (r - d) (time_passes d acc)"
  unfolding armed_def
proof (elim exE)
  fix h now nl
  assume d: "d < r" and acc: "acc = acc0\<lparr>hass := (hass acc0)\<lparr>utcnow := now,
      listeners := [(h, now + r, name)], next_listener := nl\<rparr>,
      debounce := [name \<mapsto> ((h, now + r, name), v)]\<rparr>"
  have "time_passes d acc = acc0\<lparr>hass := (hass acc0)\<lparr>utcnow := now + d,
      listeners := [(h, (now + d) + (r - d), name)], next_listener := nl\<rparr>,
      debounce := [name \<mapsto> ((h, (now + d) + (r - d), name), v)]\<rparr>"
    using d by (simp add: acc time_passes_def Let_def)
  then show "\<exists>h now nl. time_passes d acc = acc0\<lparr>hass := (hass acc0)\<lparr>utcnow := now,
      listeners := [(h, now + (r - d), name)], next_listener := nl\<rparr>,
      debounce := [name \<mapsto> ((h, now + (r - d), name), v)]\<rparr>"
    by blast
qed

lemma armed_wrapper:
  assumes "armed acc0 name v r acc"
  shows "armed acc0 name v' T (wrapper T name v' acc)"
proof -
  from assms obtain h now nl
    where acc: "acc = acc0\<lparr>hass := (hass acc0)\<lparr>utcnow := now,
      listeners := [(h, now + r, name)], next_listener := nl\<rparr>,
      debounce := [name \<mapsto> ((h, now + r, name), v)]\<rparr>"
    unfolding armed_def by blast
  have "wrapper T name v' acc =
      acc0\<lparr>hass := (hass acc0)\<lparr>utcnow := now, listeners := [(nl, now + T, name)],
                                  next_listener := Suc nl\<rparr>,
           debounce := [name \<mapsto> ((nl, now + T, name), v')]\<rparr>"
    by (simp add: acc wrapper_def cancel_pending_def track_point_in_utc_time_def
        remove_listener_def Let_def)
  then show ?thesis unfolding armed_def by blast
qed

lemma armed_fires:
  assumes "quiet acc0" "armed acc0 name v r acc" "r \<le> d"
  shows "\<exists>now nl. time_passes d acc =
     acc0\<lparr>hass := (hass acc0)\<lparr>utcnow := now, next_listener := nl,
                               executor_jobs := [(name, v)]\<rparr>\<rparr>"
proof -
  from assms(2) obtain h now nl
    where acc: "acc = acc0\<lparr>hass := (hass acc0)\<lparr>utcnow := now,
      listeners := [(h, now + r, name)], next_listener := nl\<rparr>,
      debounce := [name \<mapsto> ((h, now + r, name), v)]\<rparr>"
    unfolding armed_def by blast
  have "time_passes d acc =
      acc0\<lparr>hass := (hass acc0)\<lparr>utcnow := now + d, next_listener := nl,
                               executor_jobs := [(name, v)]\<rparr>\<rparr>"
    using assms(1,3)
    by (simp add: acc quiet_def time_passes_def fire_def call_later_listener_def
        remove_listener_def async_add_executor_job_def Let_def)
  then show ?thesis by blast
qed

lemma armed_burst:
  "armed acc0 name v T acc \<Longrightarrow> \<forall>w\<in>set ws. fst w < T \<Longrightarrow>
   armed acc0 name (last (v # map snd ws)) T (burst T name ws acc)"
proof (induction ws arbitrary: acc v)
  case Nil
  then show ?case by simp
next
  case (Cons w ws)
  obtain d v' where w: "w = (d, v')" by (cases w)
  from Cons.prems w have "d < T" by simp
  with Cons.prems(1) have "armed acc0 name v (T - d) (time_passes d acc)"
    by (rule armed_time_passes)
  then have "armed acc0 name v' T (wrapper T name v' (time_passes d acc))"
    by (rule armed_wrapper)
  then have "armed acc0 name (last (v' # map snd ws)) T
      (burst T name ws (wrapper T name v' (time_passes d acc)))"
    using Cons.prems(2) by (intro Cons.IH) simp_all
  with w show ?case by simp
qed

lemma quiet_burst:
  assumes "quiet acc" "ws \<noteq> []" "\<forall>w\<in>set (tl ws). fst w < T"
  shows "armed acc name (snd (last ws)) T (burst T name ws acc)"
proof -
  from assms(2) obtain d v ws' where ws: "ws = (d, v) # ws'"
    by (cases ws) auto
  have "settled acc (time_passes d acc)"
    using assms(1) settled_refl by (rule settled_time_passes)
  with assms(1) have "armed acc name v T (wrapper T name v (time_passes d acc))"
    by (rule settled_wrapper)
  then have "armed acc name (last (v # map snd ws')) T
      (burst T name ws' (wrapper T name v (time_passes d acc)))"
    using assms(3) ws by (intro armed_burst) simp_all
  moreover have "last (v # map snd ws') = snd (last ws)"
    using ws by (simp add: last_map)
  ultimately show ?thesis using ws by simp
qed

subsection \<open>At most one pending listener for each function\<close>

lemma filter_removeAll_other:
  "\<not> P x \<Longrightarrow> filter P (removeAll x xs) = filter P xs"
  by (induction xs) auto

lemma debounce_ok_entry:
  assumes "debounce_ok acc" "debounce acc n = Some (l, v)"
  shows "pending n (hass acc) = [l]" "snd (snd l) = n"
proof -
  from assms show p: "pending n (hass acc) = [l]"
    by (simp add: debounce_ok_def)
  then have "l \<in> set (filter (\<lambda>l. snd (snd l) = n) (listeners (hass acc)))"
    by (simp add: pending_def)
  then show "snd (snd l) = n" by simp
qed

lemma removeAll_filter_comm: "removeAll x (filter P xs) = filter P (removeAll x xs)"
  by (induction xs) auto

lemma pending_remove_listener:
  "pending n (remove_listener l hs) =
     (if snd (snd l) = n then removeAll l (pending n hs) else pending n hs)"
  by (simp add: pending_def remove_listener_def filter_removeAll_other removeAll_filter_comm)

lemma pending_cancel_pending:
  assumes "debounce_ok acc"
  shows "pending n (hass (cancel_pending name acc)) =
           (if n = name then [] else pending n (hass acc))"
proof (cases "debounce acc name")
  case None
  with assms have "pending name (hass acc) = []" by (simp add: debounce_ok_def)
  with None show ?thesis by (simp add: cancel_pending_def)
next
  case (Some e)
  obtain l v where e: "e = (l, v)" by (cases e)
  from assms Some e have l: "pending name (hass acc) = [l]" "snd (snd l) = name"
    by (auto dest: debounce_ok_entry)
  with Some e show ?thesis
    by (simp add: cancel_pending_def pending_remove_listener)
qed

lemma debounce_cancel_pending:
  "debounce (cancel_pending name acc) = (debounce acc)(name := None)"
  by (simp add: cancel_pending_def Let_def split: option.splits prod.splits)

lemma debounce_ok_wrapper:
  assumes "debounce_ok acc"
  shows "debounce_ok (wrapper T name v acc)"
  unfolding debounce_ok_def
proof
  fix n
  let ?c = "cancel_pending name acc"
  have h: "hass (wrapper T name v acc) =
      (hass ?c)\<lparr>listeners := listeners (hass ?c) @ [(next_listener (hass ?c), utcnow (hass ?c) + T, name)],
                 next_listener := Suc (next_listener (hass ?c))\<rparr>"
    and d: "debounce (wrapper T name v acc) =
      (debounce ?c)(name \<mapsto> ((next_listener (hass ?c), utcnow (hass ?c) + T, name), v))"
    by (simp_all add: wrapper_def track_point_in_utc_time_def Let_def)
  have p: "pending n (hass (wrapper T name v acc)) =
      pending n (hass ?c) @ (if n = name then [(next_listener (hass ?c), utcnow (hass ?c) + T, name)] else [])"
    by (simp add: h pending_def)
  from assms have "n \<noteq> name \<Longrightarrow>
      pending n (hass acc) = (case debounce acc n of None \<Rightarrow> [] | Some (l, v) \<Rightarrow> [l])"
    by (simp add: debounce_ok_def)
  then show "pending n (hass (wrapper T name v acc)) =
      (case debounce (wrapper T name v acc) n of None \<Rightarrow> [] | Some (l, v) \<Rightarrow> [l])"
    by (simp add: p d pending_cancel_pending [OF assms] debounce_cancel_pending)
qed

lemma debounce_ok_fire:
  assumes "debounce_ok acc" "l \<in> set (listeners (hass acc))"
  shows "debounce_ok (fire acc l)"
    and "listeners (hass (fire acc l)) = removeAll l (listeners (hass acc))"
proof -
  let ?n = "snd (snd l)"
  from assms(2) have "l \<in> set (pending ?n (hass acc))" by (simp add: pending_def)
  moreover from assms(1)
  have "pending ?n (hass acc) = (case debounce acc ?n of None \<Rightarrow> [] | Some (l, v) \<Rightarrow> [l])"
    by (simp add: debounce_ok_def)
  ultimately obtain v where e: "debounce acc ?n = Some (l, v)"
    by (cases "debounce acc ?n") auto
  from e show "listeners (hass (fire acc l)) = removeAll l (listeners (hass acc))"
    by (simp add: fire_def call_later_listener_def async_add_executor_job_def
        remove_listener_def)
  have h: "pending n (hass (fire acc l)) = pending n (remove_listener l (hass acc))" for n
    using e by (simp add: fire_def call_later_listener_def async_add_executor_job_def pending_def)
  have d: "debounce (fire acc l) = (debounce acc)(?n := None)"
    using e by (simp add: fire_def call_later_listener_def)
  from assms(1) e have own: "pending ?n (hass acc) = [l]" by (simp add: debounce_ok_def)
  show "debounce_ok (fire acc l)"
    unfolding debounce_ok_def
  proof
    fix n
    show "pending n (hass (fire acc l)) =
        (case debounce (fire acc l) n of None \<Rightarrow> [] | Some (l, v) \<Rightarrow> [l])"
    proof (cases "n = ?n")
      case True
      with own show ?thesis by (simp add: h d pending_remove_listener)
    next
      case False
      from assms(1)
      have "pending n (hass acc) = (case debounce acc n of None \<Rightarrow> [] | Some (l, v) \<Rightarrow> [l])"
        by (simp add: debounce_ok_def)
      with False show ?thesis by (simp add: h d pending_remove_listener)
    qed
  qed
qed

lemma distinct_if_filters_short:
  "(\<And>n. length (filter (\<lambda>x. f x = n) xs) \<le> 1) \<Longrightarrow> distinct xs"
proof (induction xs)
  case Nil
  then show ?case by simp
next
  case (Cons x xs)
  have short: "length (filter (\<lambda>y. f y = n) xs) \<le> 1" for n
    using Cons.prems [of n] by (simp split: if_splits)
  then have "distinct xs" by (rule Cons.IH)
  moreover have "x \<notin> set xs"
  proof
    assume "x \<in> set xs"
    then have "filter (\<lambda>y. f y = f x) xs \<noteq> []" by (auto simp: filter_empty_conv)
    then have "0 < length (filter (\<lambda>y. f y = f x) xs)" by simp
    with Cons.prems [of "f x"] show False by simp
  qed
  ultimately show ?case by simp
qed

lemma debounce_ok_distinct:
  assumes "debounce_ok acc"
  shows "distinct (listeners (hass acc))"
proof (rule distinct_if_filters_short [where f = "\<lambda>l. snd (snd l)"])
  fix n
  from assms have "pending n (hass acc) = (case debounce acc n of None \<Rightarrow> [] | Some (l, v) \<Rightarrow> [l])"
    by (simp add: debounce_ok_def)
  then show "length (filter (\<lambda>x. snd (snd x) = n) (listeners (hass acc))) \<le> 1"
    by (simp add: pending_def split: option.splits prod.splits)
qed

lemma debounce_ok_foldl_fire:
  "debounce_ok acc \<Longrightarrow> set ls \<subseteq> set (listeners (hass acc)) \<Longrightarrow> distinct ls \<Longrightarrow>
   debounce_ok (foldl fire acc ls)"
proof (induction ls arbitrary: acc)
  case Nil
  then show ?case by simp
next
  case (Cons l ls)
  from Cons.prems have l: "l \<in> set (listeners (hass acc))" by simp
  with Cons.prems(1) have ok: "debounce_ok (fire acc l)"
    and ls: "listeners (hass (fire acc l)) = removeAll l (listeners (hass acc))"
    by (rule debounce_ok_fire)+
  from Cons.prems have "set ls \<subseteq> set (listeners (hass (fire acc l)))"
    by (auto simp: ls)
  with ok have "debounce_ok (foldl fire (fire acc l) ls)"
    using Cons.prems(3) by (intro Cons.IH) simp_all
  then show ?case by simp
qed

lemma debounce_ok_time_passes:
  assumes "debounce_ok acc"
  shows "debounce_ok (time_passes d acc)"
proof -
  let ?acc1 = "acc\<lparr>hass := (hass acc)\<lparr>utcnow := utcnow (hass acc) + d\<rparr>\<rparr>"
  from assms have ok1: "debounce_ok ?acc1" by (simp add: debounce_ok_def pending_def)
  then have "distinct (listeners (hass ?acc1))" by (rule debounce_ok_distinct)
  with ok1 have "debounce_ok (foldl fire ?acc1
      (filter (\<lambda>l. fst (snd l) \<le> utcnow (hass acc) + d) (listeners (hass ?acc1))))"
    by (intro debounce_ok_foldl_fire) auto
  then show ?thesis by (simp add: time_passes_def Let_def)
qed

lemma debounce_ok_quiet: "quiet acc \<Longrightarrow> debounce_ok acc"
  by (simp add: quiet_def debounce_ok_def pending_def)

subsection \<open>The executor\<close>

lemma run_executor_jobs_single:
  "executor_jobs (hass acc) = [(name, v)] \<Longrightarrow>
   run_executor_jobs funcs acc = funcs name v (acc\<lparr>hass := (hass acc)\<lparr>executor_jobs := []\<rparr>\<rparr>)"
  by (simp add: run_executor_jobs_def)

lemma run_executor_jobs_after_fire:
  assumes "quiet acc"
  shows "run_executor_jobs funcs
           (acc\<lparr>hass := (hass acc)\<lparr>utcnow := now, next_listener := nl,
                                    executor_jobs := [(name, v)]\<rparr>\<rparr>)
         = funcs name v (acc\<lparr>hass := (hass acc)\<lparr>utcnow := now, next_listener := nl\<rparr>\<rparr>)"
proof -
  from assms have e: "executor_jobs (hass acc) = []" by (simp add: quiet_def)
  have "(hass acc)\<lparr>utcnow := now, next_listener := nl, executor_jobs := []\<rparr>
      = (hass acc)\<lparr>utcnow := now, next_listener := nl\<rparr>"
    using e by (intro hass.equality) simp_all
  then show ?thesis by (simp add: run_executor_jobs_single)
qed

lemma single_write_fires:
  assumes "quiet acc" "T \<le> d"
  shows "\<exists>now nl. time_passes d (wrapper T name v acc) =
     acc\<lparr>hass := (hass acc)\<lparr>utcnow := now, next_listener := nl,
                              executor_jobs := [(name, v)]\<rparr>\<rparr>"
proof -
  from assms(1) settled_refl have "armed acc name v T (wrapper T name v acc)"
    by (rule settled_wrapper)
  with assms(1) show ?thesis using assms(2) by (rule armed_fires)
qed

lemma burst_fires:
  assumes "quiet acc" "ws \<noteq> []" "\<forall>w\<in>set (tl ws). fst w < T" "T \<le> d"
  shows "\<exists>now nl. time_passes d (burst T name ws acc) =
     acc\<lparr>hass := (hass acc)\<lparr>utcnow := now, next_listener := nl,
                              executor_jobs := [(name, snd (last ws))]\<rparr>\<rparr>"
proof -
  from assms(1-3) have "armed acc name (snd (last ws)) T (burst T name ws acc)"
    by (rule quiet_burst)
  with assms(1) show ?thesis using assms(4) by (rule armed_fires)
qed

lemma burst_runs_setter:
  assumes "quiet acc" "ws \<noteq> []" "\<forall>w\<in>set (tl ws). fst w < T" "T \<le> d"
  shows "\<exists>now nl. run_executor_jobs funcs (time_passes d (burst T name ws acc)) =
     funcs name (snd (last ws)) (acc\<lparr>hass := (hass acc)\<lparr>utcnow := now, next_listener := nl\<rparr>\<rparr>)"
proof -
  from burst_fires [OF assms, where name = name] obtain now nl where t: "time_passes d (burst T name ws acc) =
     acc\<lparr>hass := (hass acc)\<lparr>utcnow := now, next_listener := nl,
                              executor_jobs := [(name, snd (last ws))]\<rparr>\<rparr>"
    by (elim exE)
  have "run_executor_jobs funcs (time_passes d (burst T name ws acc)) =
     funcs name (snd (last ws)) (acc\<lparr>hass := (hass acc)\<lparr>utcnow := now, next_listener := nl\<rparr>\<rparr>)"
    unfolding t using assms(1) by (rule run_executor_jobs_after_fire)
  then show ?thesis by (intro exI)
qed

lemma quiet_living_room: "quiet living_room"
  by (simp add: quiet_def living_room_def idle_hass_def)


section \<open>Properties of the thermostat\<close>

lemma set_cooling_threshold_call:
  "char_heating_thresh_temp th = Some lo \<Longrightarrow>
   set_cooling_threshold temperature_to_states v th =
     (Inr (),
      call_service ''climate'' ''set_temperature''
        [(''entity_id'', Str (acc_entity_id th)),
         (''target_temp_high'', Num (temperature_to_states v (unit th))),
         (''target_temp_low'', Num (temperature_to_states (char_value lo) (unit th)))]
        (th\<lparr>flag_coolingthresh := True\<rparr>))"
  by (simp add: set_cooling_threshold_def DOMAIN_CLIMATE_def
      SERVICE_SET_TEMPERATURE_THERMOSTAT_def ATTR_ENTITY_ID_def ATTR_TARGET_TEMP_HIGH_def
      ATTR_TARGET_TEMP_LOW_def)

lemma set_heating_threshold_call:
  "char_cooling_thresh_temp th = Some hi \<Longrightarrow>
   set_heating_threshold temperature_to_states v th =
     (Inr (),
      call_service ''climate'' ''set_temperature''
        [(''entity_id'', Str (acc_entity_id th)),
         (''target_temp_high'', Num (temperature_to_states (char_value hi) (unit th))),
         (''target_temp_low'', Num (temperature_to_states v (unit th)))]
        (th\<lparr>flag_heatingthresh := True\<rparr>))"
  by (simp add: set_heating_threshold_def DOMAIN_CLIMATE_def
      SERVICE_SET_TEMPERATURE_THERMOSTAT_def ATTR_ENTITY_ID_def ATTR_TARGET_TEMP_HIGH_def
      ATTR_TARGET_TEMP_LOW_def)

lemma service_calls_call_service:
  "service_calls (hass (call_service d s p acc)) = service_calls (hass acc) @ [(d, s, p)]"
  by (simp add: call_service_def async_call_def)

lemma set_target_temperature_call:
  "set_target_temperature temperature_to_states v th =
     (Inr (),
      call_service ''climate'' ''set_temperature''
        [(''entity_id'', Str (acc_entity_id th)),
         (''temperature'', Num (temperature_to_states v (unit th)))]
        (th\<lparr>flag_temperature := True\<rparr>))"
  by (simp add: set_target_temperature_def DOMAIN_CLIMATE_def
      SERVICE_SET_TEMPERATURE_THERMOSTAT_def ATTR_ENTITY_ID_def ATTR_TEMPERATURE_def)

text \<open>A burst of writes to one of the three setters, from the first write to the service call.\<close>

lemma burst_cooling_writes:
  assumes "quiet th" "ws \<noteq> []" "\<forall>w\<in>set (tl ws). fst w < T" "T \<le> d"
    and "char_heating_thresh_temp th = Some lo"
  shows "service_calls (hass (run_executor_jobs (thermostat_funcs temperature_to_states)
           (time_passes d (burst T ''set_cooling_threshold'' ws th)))) =
         service_calls (hass th) @
           [(''climate'', ''set_temperature'',
             [(''entity_id'', Str (acc_entity_id th)),
              (''target_temp_high'', Num (temperature_to_states (snd (last ws)) (unit th))),
              (''target_temp_low'', Num (temperature_to_states (char_value lo) (unit th)))])]"
proof -
  from burst_runs_setter [OF assms(1-4), where name = "''set_cooling_threshold''"
      and funcs = "thermostat_funcs temperature_to_states"]
  obtain now nl where "run_executor_jobs (thermostat_funcs temperature_to_states)
      (time_passes d (burst T ''set_cooling_threshold'' ws th)) =
    thermostat_funcs temperature_to_states ''set_cooling_threshold'' (snd (last ws))
      (th\<lparr>hass := (hass th)\<lparr>utcnow := now, next_listener := nl\<rparr>\<rparr>)"
    by (elim exE)
  then show ?thesis
    using assms(5)
    by (simp add: thermostat_funcs_def set_cooling_threshold_call service_calls_call_service)
qed

lemma burst_heating_writes:
  assumes "quiet th" "ws \<noteq> []" "\<forall>w\<in>set (tl ws). fst w < T" "T \<le> d"
    and "char_cooling_thresh_temp th = Some hi"
  shows "service_calls (hass (run_executor_jobs (thermostat_funcs temperature_to_states)
           (time_passes d (burst T ''set_heating_threshold'' ws th)))) =
         service_calls (hass th) @
           [(''climate'', ''set_temperature'',
             [(''entity_id'', Str (acc_entity_id th)),
              (''target_temp_high'', Num (temperature_to_states (char_value hi) (unit th))),
              (''target_temp_low'', Num (temperature_to_states (snd (last ws)) (unit th)))])]"
proof -
  from burst_runs_setter [OF assms(1-4), where name = "''set_heating_threshold''"
      and funcs = "thermostat_funcs temperature_to_states"]
  obtain now nl where "run_executor_jobs (thermostat_funcs temperature_to_states)
      (time_passes d (burst T ''set_heating_threshold'' ws th)) =
    thermostat_funcs temperature_to_states ''set_heating_threshold'' (snd (last ws))
      (th\<lparr>hass := (hass th)\<lparr>utcnow := now, next_listener := nl\<rparr>\<rparr>)"
    by (elim exE)
  then show ?thesis
    using assms(5)
    by (simp add: thermostat_funcs_def set_heating_threshold_call service_calls_call_service)
qed

lemma burst_target_temperature_writes:
  assumes "quiet th" "ws \<noteq> []" "\<forall>w\<in>set (tl ws). fst w < T" "T \<le> d"
  shows "service_calls (hass (run_executor_jobs (thermostat_funcs temperature_to_states)
           (time_passes d (burst T ''set_target_temperature'' ws th)))) =
         service_calls (hass th) @
           [(''climate'', ''set_temperature'',
             [(''entity_id'', Str (acc_entity_id th)),
              (''temperature'', Num (temperature_to_states (snd (last ws)) (unit th)))])]"
proof -
  from burst_runs_setter [OF assms(1-4), where name = "''set_target_temperature''"
      and funcs = "thermostat_funcs temperature_to_states"]
  obtain now nl where "run_executor_jobs (thermostat_funcs temperature_to_states)
      (time_passes d (burst T ''set_target_temperature'' ws th)) =
    thermostat_funcs temperature_to_states ''set_target_temperature'' (snd (last ws))
      (th\<lparr>hass := (hass th)\<lparr>utcnow := now, next_listener := nl\<rparr>\<rparr>)"
    by (elim exE)
  then show ?thesis
    by (simp add: thermostat_funcs_def set_target_temperature_call service_calls_call_service)
qed

text \<open>A single write to a threshold, from the decorated setter to the service call.\<close>

lemma single_cooling_write:
  assumes "quiet th" "T \<le> d" "char_heating_thresh_temp th = Some lo"
  shows "service_calls (hass (run_executor_jobs (thermostat_funcs temperature_to_states)
           (time_passes d (wrapper T ''set_cooling_threshold'' v th)))) =
         service_calls (hass th) @
           [(''climate'', ''set_temperature'',
             [(''entity_id'', Str (acc_entity_id th)),
              (''target_temp_high'', Num (temperature_to_states v (unit th))),
              (''target_temp_low'', Num (temperature_to_states (char_value lo) (unit th)))])]"
proof -
  from single_write_fires [OF assms(1,2), where name = "''set_cooling_threshold''" and v = v]
  obtain now nl
    where t: "time_passes d (wrapper T ''set_cooling_threshold'' v th) =
      th\<lparr>hass := (hass th)\<lparr>utcnow := now, next_listener := nl,
                             executor_jobs := [(''set_cooling_threshold'', v)]\<rparr>\<rparr>"
    by (elim exE)
  let ?th = "th\<lparr>hass := (hass th)\<lparr>utcnow := now, next_listener := nl\<rparr>\<rparr>"
  have "run_executor_jobs (thermostat_funcs temperature_to_states)
          (time_passes d (wrapper T ''set_cooling_threshold'' v th))
        = thermostat_funcs temperature_to_states ''set_cooling_threshold'' v ?th"
    unfolding t using assms(1) by (rule run_executor_jobs_after_fire)
  moreover have "char_heating_thresh_temp ?th = Some lo"
    using assms(3) by simp
  ultimately show ?thesis
    by (simp add: thermostat_funcs_def set_cooling_threshold_call service_calls_call_service)
qed

lemma single_heating_write:
  assumes "quiet th" "T \<le> d" "char_cooling_thresh_temp th = Some hi"
  shows "service_calls (hass (run_executor_jobs (thermostat_funcs temperature_to_states)
           (time_passes d (wrapper T ''set_heating_threshold'' v th)))) =
         service_calls (hass th) @
           [(''climate'', ''set_temperature'',
             [(''entity_id'', Str (acc_entity_id th)),
              (''target_temp_high'', Num (temperature_to_states (char_value hi) (unit th))),
              (''target_temp_low'', Num (temperature_to_states v (unit th)))])]"
proof -
  from single_write_fires [OF assms(1,2), where name = "''set_heating_threshold''" and v = v]
  obtain now nl
    where t: "time_passes d (wrapper T ''set_heating_threshold'' v th) =
      th\<lparr>hass := (hass th)\<lparr>utcnow := now, next_listener := nl,
                             executor_jobs := [(''set_heating_threshold'', v)]\<rparr>\<rparr>"
    by (elim exE)
  let ?th = "th\<lparr>hass := (hass th)\<lparr>utcnow := now, next_listener := nl\<rparr>\<rparr>"
  have "run_executor_jobs (thermostat_funcs temperature_to_states)
          (time_passes d (wrapper T ''set_heating_threshold'' v th))
        = thermostat_funcs temperature_to_states ''set_heating_threshold'' v ?th"
    unfolding t using assms(1) by (rule run_executor_jobs_after_fire)
  moreover have "char_cooling_thresh_temp ?th = Some hi"
    using assms(3) by simp
  ultimately show ?thesis
    by (simp add: thermostat_funcs_def set_heating_threshold_call service_calls_call_service)
qed

text \<open>
  Claim C9. With the threshold characteristics in place, \<^verbatim>\<open>set_cooling_threshold\<close> makes
  exactly one service call, \<^verbatim>\<open>set_temperature\<close> in the domain \<^verbatim>\<open>climate\<close>, whose data
  hold the written value as \<^verbatim>\<open>target_temp_high\<close> and the value of the heating threshold
  characteristic as \<^verbatim>\<open>target_temp_low\<close>, both converted to the hub's unit;
  \<^verbatim>\<open>set_heating_threshold\<close> does the same with the roles exchanged. The same holds from
  end to end: one write through the decorated setter of an accessory with nothing
  pending ends, once the delay has passed and the executor has run, in that one call.
\<close>

theorem threshold_setters_send_both_bounds:
  "(char_heating_thresh_temp th = Some lo \<longrightarrow>
      fst (set_cooling_threshold temperature_to_states v th) = Inr () \<and>
      service_calls (hass (snd (set_cooling_threshold temperature_to_states v th))) =
        service_calls (hass th) @
          [(''climate'', ''set_temperature'',
            [(''entity_id'', Str (acc_entity_id th)),
             (''target_temp_high'', Num (temperature_to_states v (unit th))),
             (''target_temp_low'', Num (temperature_to_states (char_value lo) (unit th)))])] \<and>
      (quiet th \<longrightarrow> DEBOUNCE_TIMEOUT \<le> d \<longrightarrow>
         service_calls (hass (run_executor_jobs (thermostat_funcs temperature_to_states)
           (time_passes d (wrapper DEBOUNCE_TIMEOUT ''set_cooling_threshold'' v th)))) =
         service_calls (hass th) @
           [(''climate'', ''set_temperature'',
             [(''entity_id'', Str (acc_entity_id th)),
              (''target_temp_high'', Num (temperature_to_states v (unit th))),
              (''target_temp_low'', Num (temperature_to_states (char_value lo) (unit th)))])]))
   \<and> (char_cooling_thresh_temp th = Some hi \<longrightarrow>
      fst (set_heating_threshold temperature_to_states v th) = Inr () \<and>
      service_calls (hass (snd (set_heating_threshold temperature_to_states v th))) =
        service_calls (hass th) @
          [(''climate'', ''set_temperature'',
            [(''entity_id'', Str (acc_entity_id th)),
             (''target_temp_high'', Num (temperature_to_states (char_value hi) (unit th))),
             (''target_temp_low'', Num (temperature_to_states v (unit th)))])] \<and>
      (quiet th \<longrightarrow> DEBOUNCE_TIMEOUT \<le> d \<longrightarrow>
         service_calls (hass (run_executor_jobs (thermostat_funcs temperature_to_states)
           (time_passes d (wrapper DEBOUNCE_TIMEOUT ''set_heating_threshold'' v th)))) =
         service_calls (hass th) @
           [(''climate'', ''set_temperature'',
             [(''entity_id'', Str (acc_entity_id th)),
              (''target_temp_high'', Num (temperature_to_states (char_value hi) (unit th))),
              (''target_temp_low'', Num (temperature_to_states v (unit th)))])]))"
proof (intro conjI impI)
  assume lo: "char_heating_thresh_temp th = Some lo"
  then show "fst (set_cooling_threshold temperature_to_states v th) = Inr ()"
    by (simp add: set_cooling_threshold_call)
  from lo show "service_calls (hass (snd (set_cooling_threshold temperature_to_states v th))) =
        service_calls (hass th) @
          [(''climate'', ''set_temperature'',
            [(''entity_id'', Str (acc_entity_id th)),
             (''target_temp_high'', Num (temperature_to_states v (unit th))),
             (''target_temp_low'', Num (temperature_to_states (char_value lo) (unit th)))])]"
    by (simp add: set_cooling_threshold_call service_calls_call_service)
  assume "quiet th" "DEBOUNCE_TIMEOUT \<le> d"
  then show "service_calls (hass (run_executor_jobs (thermostat_funcs temperature_to_states)
           (time_passes d (wrapper DEBOUNCE_TIMEOUT ''set_cooling_threshold'' v th)))) =
         service_calls (hass th) @
           [(''climate'', ''set_temperature'',
             [(''entity_id'', Str (acc_entity_id th)),
              (''target_temp_high'', Num (temperature_to_states v (unit th))),
              (''target_temp_low'', Num (temperature_to_states (char_value lo) (unit th)))])]"
    using lo by (rule single_cooling_write)
next
  assume hi: "char_cooling_thresh_temp th = Some hi"
  then show "fst (set_heating_threshold temperature_to_states v th) = Inr ()"
    by (simp add: set_heating_threshold_call)
  from hi show "service_calls (hass (snd (set_heating_threshold temperature_to_states v th))) =
        service_calls (hass th) @
          [(''climate'', ''set_temperature'',
            [(''entity_id'', Str (acc_entity_id th)),
             (''target_temp_high'', Num (temperature_to_states (char_value hi) (unit th))),
             (''target_temp_low'', Num (temperature_to_states v (unit th)))])]"
    by (simp add: set_heating_threshold_call service_calls_call_service)
  assume "quiet th" "DEBOUNCE_TIMEOUT \<le> d"
  then show "service_calls (hass (run_executor_jobs (thermostat_funcs temperature_to_states)
           (time_passes d (wrapper DEBOUNCE_TIMEOUT ''set_heating_threshold'' v th)))) =
         service_calls (hass th) @
           [(''climate'', ''set_temperature'',
             [(''entity_id'', Str (acc_entity_id th)),
              (''target_temp_high'', Num (temperature_to_states (char_value hi) (unit th))),
              (''target_temp_low'', Num (temperature_to_states v (unit th)))])]"
    using hi by (rule single_heating_write)
qed

text \<open>
  The cooling threshold is set to 24.0 while the heating threshold is 18.0, on a hub in
  degrees Celsius, where the conversion leaves both as they are.
\<close>

theorem threshold_setters_send_both_bounds_witness:
  "char_heating_thresh_temp living_room = Some (configure_char 18) \<and>
   quiet living_room \<and>
   service_calls (hass (snd (set_cooling_threshold (\<lambda>t u. t) 24 living_room))) =
     [(''climate'', ''set_temperature'',
       [(''entity_id'', Str ''climate.living_room''),
        (''target_temp_high'', Num 24), (''target_temp_low'', Num 18)])] \<and>
   service_calls (hass (run_executor_jobs (thermostat_funcs (\<lambda>t u. t))
       (time_passes 5 (wrapper 5 ''set_cooling_threshold'' 24 living_room)))) =
     [(''climate'', ''set_temperature'',
       [(''entity_id'', Str ''climate.living_room''),
        (''target_temp_high'', Num 24), (''target_temp_low'', Num 18)])]"
proof -
  have lo: "char_heating_thresh_temp living_room = Some (configure_char 18)"
    by (simp add: living_room_def)
  have vals: "service_calls (hass living_room) = []" "acc_entity_id living_room = ''climate.living_room''"
    "char_value (configure_char (18 :: real)) = 18"
    by (simp_all add: living_room_def idle_hass_def configure_char_def)
  note inst = threshold_setters_send_both_bounds
    [where th = living_room and lo = "configure_char 18" and temperature_to_states = "\<lambda>t u. t"
       and v = 24 and DEBOUNCE_TIMEOUT = 5 and d = 5, THEN conjunct1, THEN mp, OF lo]
  from inst quiet_living_room lo vals show ?thesis by simp
qed

section \<open>The last write of a burst wins\<close>

text \<open>
  Claim C6. Take an accessory with no write pending and a burst of one or more writes to
  one debounced setter, each less than \<open>DEBOUNCE_TIMEOUT\<close> after the one before.
  After the burst one listener is pending. When the delay has passed, the accessory is
  as at the start but for the clock, the listener counter and one job in the executor:
  the setter with the value of the last write; running the executor is one call of that
  setter. For the three debounced setters of the thermostat that call is spelled out:
  the log of service calls grows by exactly one \<^verbatim>\<open>set_temperature\<close> call, with the value
  of the last write.

  \<^verbatim>\<open>wrapper\<close> removes the pending listener of its function before it registers the new
  one: between the two, none is pending for that function. In every state, writes and
  the passing of time keep \<open>debounce_ok\<close>: each function with an entry has exactly
  the listener of that entry pending, so no function ever has two.

  A write and the firing of a listener are single steps here.
\<close>

theorem debounce_last_write_wins:
  "(quiet acc \<longrightarrow> ws \<noteq> [] \<longrightarrow> (\<forall>w\<in>set (tl ws). fst w < T) \<longrightarrow> T \<le> d \<longrightarrow>
      (\<exists>now nl l.
         listeners (hass (burst T name ws acc)) = [l] \<and>
         time_passes d (burst T name ws acc) =
           acc\<lparr>hass := (hass acc)\<lparr>utcnow := now, next_listener := nl,
                                    executor_jobs := [(name, snd (last ws))]\<rparr>\<rparr> \<and>
         run_executor_jobs funcs (time_passes d (burst T name ws acc)) =
           funcs name (snd (last ws))
             (acc\<lparr>hass := (hass acc)\<lparr>utcnow := now, next_listener := nl\<rparr>\<rparr>)))
   \<and> (quiet th \<longrightarrow> ws \<noteq> [] \<longrightarrow> (\<forall>w\<in>set (tl ws). fst w < T) \<longrightarrow> T \<le> d \<longrightarrow>
      (char_heating_thresh_temp th = Some lo \<longrightarrow>
         service_calls (hass (run_executor_jobs (thermostat_funcs temperature_to_states)
           (time_passes d (burst T ''set_cooling_threshold'' ws th)))) =
         service_calls (hass th) @
           [(''climate'', ''set_temperature'',
             [(''entity_id'', Str (acc_entity_id th)),
              (''target_temp_high'', Num (temperature_to_states (snd (last ws)) (unit th))),
              (''target_temp_low'', Num (temperature_to_states (char_value lo) (unit th)))])]) \<and>
      (char_cooling_thresh_temp th = Some hi \<longrightarrow>
         service_calls (hass (run_executor_jobs (thermostat_funcs temperature_to_states)
           (time_passes d (burst T ''set_heating_threshold'' ws th)))) =
         service_calls (hass th) @
           [(''climate'', ''set_temperature'',
             [(''entity_id'', Str (acc_entity_id th)),
              (''target_temp_high'', Num (temperature_to_states (char_value hi) (unit th))),
              (''target_temp_low'', Num (temperature_to_states (snd (last ws)) (unit th)))])]) \<and>
      service_calls (hass (run_executor_jobs (thermostat_funcs temperature_to_states)
        (time_passes d (burst T ''set_target_temperature'' ws th)))) =
      service_calls (hass th) @
        [(''climate'', ''set_temperature'',
          [(''entity_id'', Str (acc_entity_id th)),
           (''temperature'', Num (temperature_to_states (snd (last ws)) (unit th)))])])
   \<and> (debounce_ok acc' \<longrightarrow>
        pending name' (hass (cancel_pending name' acc')) = [] \<and>
        debounce_ok (wrapper T' name' v acc') \<and>
        debounce_ok (time_passes d' acc'))"
proof (intro conjI impI)
  assume q: "quiet acc" and ws: "ws \<noteq> []" "\<forall>w\<in>set (tl ws). fst w < T" and d: "T \<le> d"
  let ?b = "burst T name ws acc" and ?v = "snd (last ws)"
  from q ws have a: "armed acc name ?v T ?b" by (rule quiet_burst)
  then obtain h now0 nl0 where b: "?b = acc\<lparr>hass := (hass acc)\<lparr>utcnow := now0,
      listeners := [(h, now0 + T, name)], next_listener := nl0\<rparr>,
      debounce := [name \<mapsto> ((h, now0 + T, name), ?v)]\<rparr>"
    unfolding armed_def by (elim exE)
  have l: "listeners (hass ?b) = [(h, now0 + T, name)]"
    by (subst b) simp
  from armed_fires [OF q a d] obtain now nl where t: "time_passes d ?b =
      acc\<lparr>hass := (hass acc)\<lparr>utcnow := now, next_listener := nl,
                               executor_jobs := [(name, ?v)]\<rparr>\<rparr>"
    by (elim exE)
  have r: "run_executor_jobs funcs (time_passes d ?b) =
      funcs name ?v (acc\<lparr>hass := (hass acc)\<lparr>utcnow := now, next_listener := nl\<rparr>\<rparr>)"
    unfolding t using q by (rule run_executor_jobs_after_fire)
  show "\<exists>now nl l.
         listeners (hass ?b) = [l] \<and>
         time_passes d ?b =
           acc\<lparr>hass := (hass acc)\<lparr>utcnow := now, next_listener := nl,
                                    executor_jobs := [(name, ?v)]\<rparr>\<rparr> \<and>
         run_executor_jobs funcs (time_passes d ?b) =
           funcs name ?v (acc\<lparr>hass := (hass acc)\<lparr>utcnow := now, next_listener := nl\<rparr>\<rparr>)"
    by (intro exI conjI) (rule l, rule t, rule r)
next
  assume b: "quiet th" "ws \<noteq> []" "\<forall>w\<in>set (tl ws). fst w < T" "T \<le> d"
  then show "service_calls (hass (run_executor_jobs (thermostat_funcs temperature_to_states)
        (time_passes d (burst T ''set_target_temperature'' ws th)))) =
      service_calls (hass th) @
        [(''climate'', ''set_temperature'',
          [(''entity_id'', Str (acc_entity_id th)),
           (''temperature'', Num (temperature_to_states (snd (last ws)) (unit th)))])]"
    by (rule burst_target_temperature_writes)
  {
    assume "char_heating_thresh_temp th = Some lo"
    with b show "service_calls (hass (run_executor_jobs (thermostat_funcs temperature_to_states)
           (time_passes d (burst T ''set_cooling_threshold'' ws th)))) =
         service_calls (hass th) @
           [(''climate'', ''set_temperature'',
             [(''entity_id'', Str (acc_entity_id th)),
              (''target_temp_high'', Num (temperature_to_states (snd (last ws)) (unit th))),
              (''target_temp_low'', Num (temperature_to_states (char_value lo) (unit th)))])]"
      by (rule burst_cooling_writes)
  }
  {
    assume "char_cooling_thresh_temp th = Some hi"
    with b show "service_calls (hass (run_executor_jobs (thermostat_funcs temperature_to_states)
           (time_passes d (burst T ''set_heating_threshold'' ws th)))) =
         service_calls (hass th) @
           [(''climate'', ''set_temperature'',
             [(''entity_id'', Str (acc_entity_id th)),
              (''target_temp_high'', Num (temperature_to_states (char_value hi) (unit th))),
              (''target_temp_low'', Num (temperature_to_states (snd (last ws)) (unit th)))])]"
      by (rule burst_heating_writes)
  }
next
  assume ok: "debounce_ok acc'"
  then show "pending name' (hass (cancel_pending name' acc')) = []"
    by (simp add: pending_cancel_pending)
  from ok show "debounce_ok (wrapper T' name' v acc')" by (rule debounce_ok_wrapper)
  from ok show "debounce_ok (time_passes d' acc')" by (rule debounce_ok_time_passes)
qed

theorem debounce_last_write_wins_witness:
  "quiet living_room \<and> three_writes \<noteq> [] \<and> snd (last three_writes) = 24 \<and>
   service_calls (hass (run_executor_jobs (thermostat_funcs (\<lambda>t u. t))
     (time_passes 5 (burst 5 ''set_cooling_threshold'' three_writes living_room))))
   = [(''climate'', ''set_temperature'',
       [(''entity_id'', Str ''climate.living_room''),
        (''target_temp_high'', Num 24), (''target_temp_low'', Num 18)])] \<and>
   debounce_ok living_room \<and>
   debounce_ok (wrapper 5 ''set_cooling_threshold'' 22 living_room)"
proof -
  have ne: "three_writes \<noteq> []" and last: "snd (last three_writes) = 24"
    by (simp_all add: three_writes_def)
  have gaps: "\<forall>w\<in>set (tl three_writes). fst w < (5 :: nat)"
    by (simp add: three_writes_def)
  have le: "(5 :: nat) \<le> 5" by simp
  have ok: "debounce_ok living_room"
    using quiet_living_room by (rule debounce_ok_quiet)
  note inst = debounce_last_write_wins
    [where acc = living_room and ws = three_writes and T = 5 and d = 5
       and name = "''set_cooling_threshold''" and funcs = "thermostat_funcs (\<lambda>t u. t)"
       and acc' = living_room and name' = "''set_cooling_threshold''" and T' = 5
       and v = 22 and d' = 0 and th = living_room and lo = "configure_char 18"
       and hi = "configure_char 24" and temperature_to_states = "\<lambda>t u. t"]
  from inst [THEN conjunct1, THEN mp, OF quiet_living_room, THEN mp, OF ne, THEN mp, OF gaps,
      THEN mp, OF le]
  obtain now nl where run: "run_executor_jobs (thermostat_funcs (\<lambda>t u. t))
     (time_passes 5 (burst 5 ''set_cooling_threshold'' three_writes living_room))
     = thermostat_funcs (\<lambda>t u. t) ''set_cooling_threshold'' (snd (last three_writes))
         (living_room\<lparr>hass := (hass living_room)\<lparr>utcnow := now, next_listener := nl\<rparr>\<rparr>)"
    by (elim exE conjE)
  from inst [THEN conjunct2, THEN conjunct2, THEN mp, OF ok]
  have ok': "debounce_ok (wrapper 5 ''set_cooling_threshold'' 22 living_room)"
    by (elim conjE)
  have "service_calls (hass (thermostat_funcs (\<lambda>t u. t) ''set_cooling_threshold'' 24
         (living_room\<lparr>hass := (hass living_room)\<lparr>utcnow := now, next_listener := nl\<rparr>\<rparr>)))
     = [(''climate'', ''set_temperature'',
       [(''entity_id'', Str ''climate.living_room''),
        (''target_temp_high'', Num 24), (''target_temp_low'', Num 18)])]"
    by (simp add: thermostat_funcs_def set_cooling_threshold_def living_room_def idle_hass_def
        call_service_def async_call_def configure_char_def DOMAIN_CLIMATE_def
        SERVICE_SET_TEMPERATURE_THERMOSTAT_def ATTR_ENTITY_ID_def ATTR_TARGET_TEMP_HIGH_def
        ATTR_TARGET_TEMP_LOW_def)
  with run last have "service_calls (hass (run_executor_jobs (thermostat_funcs (\<lambda>t u. t))
     (time_passes 5 (burst 5 ''set_cooling_threshold'' three_writes living_room))))
   = [(''climate'', ''set_temperature'',
       [(''entity_id'', Str ''climate.living_room''),
        (''target_temp_high'', Num 24), (''target_temp_low'', Num 18)])]"
    by simp
  with ok ok' quiet_living_room ne last show ?thesis by (intro conjI)
qed

end
